theory Spec2Isabelle
  imports Main "HOL-Library.Multiset"
begin

section \<open>Strings of the host language\<close>

text \<open>
  A string of the host language is a sequence of UTF-16 code units. A \<open>char\<close> stands for a
  code unit below 256, so the model covers text of the Basic Latin and Latin-1 Supplement
  blocks. On such text \<open>toLowerCase\<close> moves the capital letters, which are the units 65 to
  90 (\<open>A\<close> to \<open>Z\<close>) and 192 to 222 without the multiplication sign 215, to the unit 32
  above, and leaves every other unit alone.
\<close>

definition is_upper :: "char \<Rightarrow> bool" where
  "is_upper c =
     ((65 \<le> (of_char c :: nat) \<and> (of_char c :: nat) \<le> 90) \<or>
      (192 \<le> (of_char c :: nat) \<and> (of_char c :: nat) \<le> 222 \<and> (of_char c :: nat) \<noteq> 215))"

definition lower_char :: "char \<Rightarrow> char" where
  "lower_char c = (if is_upper c then char_of ((of_char c :: nat) + 32) else c)"

definition toLowerCase :: "string \<Rightarrow> string" where
  "toLowerCase s = map lower_char s"

text \<open>\<open>String.prototype.includes\<close>: the argument occurs as a contiguous substring.\<close>

fun starts_with :: "string \<Rightarrow> string \<Rightarrow> bool" where
  "starts_with s [] = True"
| "starts_with [] (q # qs) = False"
| "starts_with (c # cs) (q # qs) = (c = q \<and> starts_with cs qs)"

fun str_includes :: "string \<Rightarrow> string \<Rightarrow> bool" where
  "str_includes [] q = (q = [])"
| "str_includes (c # cs) q = (starts_with (c # cs) q \<or> str_includes cs q)"

text \<open>\<open>Array.prototype.join\<close> on an array of strings.\<close>

fun array_join :: "string \<Rightarrow> string list \<Rightarrow> string" where
  "array_join sep [] = []"
| "array_join sep [x] = x"
| "array_join sep (x # y # ys) = x @ sep @ array_join sep (y # ys)"

text \<open>
  \<open>s.replace("#", "")\<close> with a string pattern removes the first occurrence of the
  character only.
\<close>

fun replace_hash :: "string \<Rightarrow> string" where
  "replace_hash [] = []"
| "replace_hash (c # cs) = (if c = CHR ''#'' then cs else c # replace_hash cs)"

definition dq :: string where
  "dq = [CHR 0x22]"

definition quoted :: "string \<Rightarrow> string" where
  "quoted s = dq @ s @ dq"

subsection \<open>Case-insensitive comparison, as the specification words it\<close>

text \<open>
  The capital letters and their small forms are listed letter by letter: the twenty-six of
  the alphabet and the thirty accented capitals of Latin-1, each with its small form at the
  same position. Two characters are the same letter up to case when they are equal or one
  is the capital of the other in this list. Two strings are case-insensitively equal when
  they agree position by position up to case; a string case-insensitively contains a query
  when one of its contiguous substrings is case-insensitively equal to the query.
\<close>

definition upper_letters :: string where
  "upper_letters = ''ABCDEFGHIJKLMNOPQRSTUVWXYZ'' @
     [CHR 0xC0, CHR 0xC1, CHR 0xC2, CHR 0xC3, CHR 0xC4, CHR 0xC5, CHR 0xC6, CHR 0xC7,
      CHR 0xC8, CHR 0xC9, CHR 0xCA, CHR 0xCB, CHR 0xCC, CHR 0xCD, CHR 0xCE, CHR 0xCF,
      CHR 0xD0, CHR 0xD1, CHR 0xD2, CHR 0xD3, CHR 0xD4, CHR 0xD5, CHR 0xD6,
      CHR 0xD8, CHR 0xD9, CHR 0xDA, CHR 0xDB, CHR 0xDC, CHR 0xDD, CHR 0xDE]"

definition lower_letters :: string where
  "lower_letters = ''abcdefghijklmnopqrstuvwxyz'' @
     [CHR 0xE0, CHR 0xE1, CHR 0xE2, CHR 0xE3, CHR 0xE4, CHR 0xE5, CHR 0xE6, CHR 0xE7,
      CHR 0xE8, CHR 0xE9, CHR 0xEA, CHR 0xEB, CHR 0xEC, CHR 0xED, CHR 0xEE, CHR 0xEF,
      CHR 0xF0, CHR 0xF1, CHR 0xF2, CHR 0xF3, CHR 0xF4, CHR 0xF5, CHR 0xF6,
      CHR 0xF8, CHR 0xF9, CHR 0xFA, CHR 0xFB, CHR 0xFC, CHR 0xFD, CHR 0xFE]"

definition same_letter :: "char \<Rightarrow> char \<Rightarrow> bool" where
  "same_letter c d =
     (c = d \<or> (c, d) \<in> set (zip upper_letters lower_letters)
            \<or> (d, c) \<in> set (zip upper_letters lower_letters))"

definition ci_equal :: "string \<Rightarrow> string \<Rightarrow> bool" where
  "ci_equal a b = list_all2 same_letter a b"


section \<open>Arrays and collections\<close>

text \<open>
  \<open>Array.prototype.sort(cmp)\<close> is a stable sort (ECMAScript 2019, and the README asks for
  Node.js 16 or higher): an element goes in front of those it does not compare greater than,
  and elements that compare equal stay in input order. The model is the insertion sort
  that inserts from the right.
\<close>

fun insert_cmp :: "('a \<Rightarrow> 'a \<Rightarrow> int) \<Rightarrow> 'a \<Rightarrow> 'a list \<Rightarrow> 'a list" where
  "insert_cmp cmp x [] = [x]"
| "insert_cmp cmp x (y # ys) =
     (if cmp x y \<le> 0 then x # y # ys else y # insert_cmp cmp x ys)"

fun array_sort :: "('a \<Rightarrow> 'a \<Rightarrow> int) \<Rightarrow> 'a list \<Rightarrow> 'a list" where
  "array_sort cmp [] = []"
| "array_sort cmp (x # xs) = insert_cmp cmp x (array_sort cmp xs)"

text \<open>\<open>xs.slice(0, n)\<close> for a count \<open>n\<close>.\<close>

definition slice0 :: "nat \<Rightarrow> 'a list \<Rightarrow> 'a list" where
  "slice0 n xs = take n xs"

text \<open>\<open>[...new Set(xs)]\<close>: the first occurrence of every element, in order.\<close>

definition set_add :: "'a list \<Rightarrow> 'a \<Rightarrow> 'a list" where
  "set_add acc x = (if x \<in> set acc then acc else acc @ [x])"

definition new_Set :: "'a list \<Rightarrow> 'a list" where
  "new_Set xs = foldl set_add [] xs"

section \<open>Data model\<close>

record guild =
  gid :: string
  gname :: string

datatype channel_type =
    GuildText | GuildVoice | GuildCategory | GuildAnnouncement
  | AnnouncementThread | PublicThread | PrivateThread
  | GuildStageVoice | GuildForum | GuildMedia

record emoji =
  emoji_id :: "string option"
  emoji_name :: "string option"

record tag =
  tag_id :: string
  tag_name :: string
  tag_emoji :: "emoji option"

text \<open>
  A channel object of the client library. Text channels, forum channels and threads are
  all channels; \<open>availableTags\<close> is read on forums only, and \<open>parent_id\<close>, \<open>archived\<close>,
  \<open>locked\<close>, \<open>createdTimestamp\<close> and \<open>appliedTags\<close> on threads only. The source reads
  \<open>createdTimestamp\<close> with a non-null assertion, so it is a number here; a null
  \<open>archived\<close> flag is falsy and is \<open>False\<close> here.
\<close>

record channel =
  cid :: string
  cname :: string
  ctype :: channel_type
  guild_id :: string
  parent_id :: "string option"
  archived :: bool
  locked :: bool
  createdTimestamp :: int
  appliedTags :: "string list"
  availableTags :: "tag list"

definition isThreadChannel :: "channel \<Rightarrow> bool" where
  "isThreadChannel ch =
     (ctype ch = AnnouncementThread \<or> ctype ch = PublicThread \<or> ctype ch = PrivateThread)"

record message =
  mid :: string
  author :: string
  content :: string

text \<open>
  A \<open>Collection\<close> of threads is a \<open>Map\<close> from thread id to thread that keeps insertion
  order: setting an id that is present replaces the value and keeps its position.
  \<open>a.concat(b)\<close> copies \<open>a\<close> and sets every entry of \<open>b\<close> in turn.
\<close>

fun coll_set :: "channel list \<Rightarrow> channel \<Rightarrow> channel list" where
  "coll_set [] t = [t]"
| "coll_set (x # xs) t = (if cid x = cid t then t # xs else x # coll_set xs t)"

definition coll_concat :: "channel list \<Rightarrow> channel list \<Rightarrow> channel list" where
  "coll_concat a b = foldl coll_set a b"

section \<open>Filtering, sorting and limiting threads\<close>

text \<open>The filter of \<open>search-threads\<close> on one thread.\<close>

definition thread_matches :: "string \<Rightarrow> bool \<Rightarrow> channel \<Rightarrow> bool" where
  "thread_matches query exactMatch thread =
     (let queryLower = toLowerCase query;
          threadNameLower = toLowerCase (cname thread)
      in if exactMatch then threadNameLower = queryLower
         else str_includes threadNameLower queryLower)"

definition filteredThreads :: "string \<Rightarrow> bool \<Rightarrow> channel list \<Rightarrow> channel list" where
  "filteredThreads query exactMatch allThreads =
     filter (thread_matches query exactMatch) allThreads"

text \<open>The comparator \<open>(a, b) => b.createdTimestamp - a.createdTimestamp\<close>.\<close>

definition newest_first :: "channel \<Rightarrow> channel \<Rightarrow> int" where
  "newest_first a b = createdTimestamp b - createdTimestamp a"

definition threadList :: "nat \<Rightarrow> channel list \<Rightarrow> channel list" where
  "threadList limit threads = slice0 limit (array_sort newest_first threads)"

text \<open>
  The order the specification asks for: \<open>ordered\<close> is a rearrangement of \<open>input\<close> that is
  descending in \<open>createdTimestamp\<close>, and the threads of any one timestamp stand in it in
  their input order.
\<close>

definition newest_first_stable :: "channel list \<Rightarrow> channel list \<Rightarrow> bool" where
  "newest_first_stable input ordered =
     (mset ordered = mset input
      \<and> sorted_wrt (\<lambda>a b. createdTimestamp b \<le> createdTimestamp a) ordered
      \<and> (\<forall>k. filter (\<lambda>t. createdTimestamp t = k) ordered =
               filter (\<lambda>t. createdTimestamp t = k) input))"

section \<open>The external client\<close>

text \<open>
  Every request to the client library is recorded in a log of calls, in the order the
  handler awaits them. What the client answers is a parameter: each operation maps the log
  of the calls made before it and its arguments to a value or to a rejection, so a source
  that answers by cursor and one that answers by request count are both instances.
\<close>

datatype failure = NotFoundFailure | OtherFailure string

datatype fetch_options = FetchOptions (opt_limit: nat) (opt_before: "string option")

datatype call =
    GuildsFetch string
  | ChannelsFetch string string
  | FetchActive string
  | FetchArchived string "fetch_options option"
  | MessagesFetch string fetch_options
  | SetAppliedTags string "string list"
  | SetArchived string bool "string option"

fun is_mutating :: "call \<Rightarrow> bool" where
  "is_mutating (SetAppliedTags t ids) = True"
| "is_mutating (SetArchived t a r) = True"
| "is_mutating other = False"

fun is_archived_request :: "call \<Rightarrow> bool" where
  "is_archived_request (FetchArchived f opts) = True"
| "is_archived_request other = False"

fun is_messages_request :: "call \<Rightarrow> bool" where
  "is_messages_request (MessagesFetch t opts) = True"
| "is_messages_request other = False"

record client =
  guilds_cache :: "call list \<Rightarrow> guild list"
  guilds_fetch :: "call list \<Rightarrow> string \<Rightarrow> failure + guild option"
  channels_cache :: "call list \<Rightarrow> string \<Rightarrow> channel list"
  channels_fetch :: "call list \<Rightarrow> string \<Rightarrow> string \<Rightarrow> failure + channel option"
  threads_fetchActive :: "call list \<Rightarrow> string \<Rightarrow> failure + channel list"
  threads_fetchArchived ::
    "call list \<Rightarrow> string \<Rightarrow> fetch_options option \<Rightarrow> failure + channel list"
  messages_fetch :: "call list \<Rightarrow> string \<Rightarrow> fetch_options \<Rightarrow> failure + message list"
  thread_setAppliedTags :: "call list \<Rightarrow> string \<Rightarrow> string list \<Rightarrow> failure + unit"
  thread_setArchived ::
    "call list \<Rightarrow> string \<Rightarrow> bool \<Rightarrow> string option \<Rightarrow> failure + unit"

text \<open>
  A handler fails with \<open>new Error(message)\<close> of its own or with the rejection of a client
  call it awaits outside a \<open>try\<close>.
\<close>

datatype error = Error string | Rejected failure

type_synonym 'a outcome = "(error + 'a) \<times> call list"

definition await_call :: "call \<Rightarrow> failure + 'a \<Rightarrow> call list \<Rightarrow> 'a outcome" where
  "await_call cl response log =
     (case response of Inl f \<Rightarrow> (Inl (Rejected f), log @ [cl])
                     | Inr v \<Rightarrow> (Inr v, log @ [cl]))"

definition and_then :: "'a outcome \<Rightarrow> ('a \<Rightarrow> call list \<Rightarrow> 'b outcome) \<Rightarrow> 'b outcome" where
  "and_then r k = (case r of (Inl e, log) \<Rightarrow> (Inl e, log) | (Inr v, log) \<Rightarrow> k v log)"

section \<open>Guild resolution: \<open>findGuild\<close>\<close>

definition available_servers :: "guild list \<Rightarrow> string" where
  "available_servers gs = array_join '', '' (map (\<lambda>g. quoted (gname g)) gs)"

text \<open>No identifier (\<open>undefined\<close> or the empty string, both falsy).\<close>

definition findGuild_unspecified :: "client \<Rightarrow> call list \<Rightarrow> guild outcome" where
  "findGuild_unspecified c log =
     (case guilds_cache c log of
        [g] \<Rightarrow> (Inr g, log)
      | gs \<Rightarrow> (Inl (Error (''Bot is in multiple servers. Please specify server name or ID. ''
                  @ ''Available servers: '' @ available_servers gs)), log))"

text \<open>The \<open>catch\<close> block: search the cached guilds by name.\<close>

definition guild_by_name :: "guild list \<Rightarrow> string \<Rightarrow> error + guild" where
  "guild_by_name cache guildIdentifier =
     (let guilds = filter (\<lambda>g. toLowerCase (gname g) = toLowerCase guildIdentifier) cache
      in if length guilds = 0 then
           Inl (Error (''Server '' @ quoted guildIdentifier
                  @ '' not found. Available servers: '' @ available_servers cache))
         else if length guilds > 1 then
           Inl (Error (''Multiple servers found with name '' @ quoted guildIdentifier @ '': ''
                  @ array_join '', '' (map (\<lambda>g. gname g @ '' (ID: '' @ gid g @ '')'') guilds)
                  @ ''. Please specify the server ID.''))
         else Inr (hd guilds))"

definition findGuild_by :: "client \<Rightarrow> string \<Rightarrow> call list \<Rightarrow> guild outcome" where
  "findGuild_by c guildIdentifier log =
     (let log1 = log @ [GuildsFetch guildIdentifier]
      in case guilds_fetch c log guildIdentifier of
           Inr (Some g) \<Rightarrow> (Inr g, log1)
         | Inr None \<Rightarrow> (Inl (Error (''Server '' @ quoted guildIdentifier @ '' not found'')), log1)
         | Inl f \<Rightarrow> (guild_by_name (guilds_cache c log1) guildIdentifier, log1))"

fun findGuild :: "client \<Rightarrow> string option \<Rightarrow> call list \<Rightarrow> guild outcome" where
  "findGuild c None log = findGuild_unspecified c log"
| "findGuild c (Some guildIdentifier) log =
     (if guildIdentifier = [] then findGuild_unspecified c log
      else findGuild_by c guildIdentifier log)"

section \<open>Forum resolution\<close>

text \<open>
  The four forum handlers resolve the forum channel with the same block: fetch by id inside
  a \<open>try\<close> with an empty \<open>catch\<close>, keep the channel when it is a forum, and otherwise search
  the guild's cached forum channels by name.
\<close>

definition forum_name_matches :: "string \<Rightarrow> channel \<Rightarrow> bool" where
  "forum_name_matches channelIdentifier ch =
     (ctype ch = GuildForum \<and>
      (toLowerCase (cname ch) = toLowerCase channelIdentifier \<or>
       toLowerCase (cname ch) = replace_hash (toLowerCase channelIdentifier)))"

definition forum_by_name :: "guild \<Rightarrow> channel list \<Rightarrow> string \<Rightarrow> error + channel" where
  "forum_by_name g cache channelIdentifier =
     (let channels = filter (forum_name_matches channelIdentifier) cache
      in if length channels = 0 then
           Inl (Error (''Forum channel '' @ quoted channelIdentifier @ '' not found in server ''
                  @ quoted (gname g) @ ''. Available forums: ''
                  @ array_join '', ''
                      (map (\<lambda>ch. quoted (''#'' @ cname ch))
                         (filter (\<lambda>ch. ctype ch = GuildForum) cache))))
         else if length channels > 1 then
           Inl (Error (''Multiple forum channels found with name '' @ quoted channelIdentifier
                  @ '' in server '' @ quoted (gname g) @ '': ''
                  @ array_join '', '' (map (\<lambda>ch. ''#'' @ cname ch @ '' ('' @ cid ch @ '')'') channels)
                  @ ''. Please specify the channel ID.''))
         else Inr (hd channels))"

definition findForum :: "client \<Rightarrow> guild \<Rightarrow> string \<Rightarrow> call list \<Rightarrow> channel outcome" where
  "findForum c g channelIdentifier log =
     (let log1 = log @ [ChannelsFetch (gid g) channelIdentifier];
          forumChannel =
            (case channels_fetch c log (gid g) channelIdentifier of
               Inr (Some ch) \<Rightarrow> if ctype ch = GuildForum then Some ch else None
             | Inr None \<Rightarrow> None
             | Inl f \<Rightarrow> None)
      in case forumChannel of
           Some ch \<Rightarrow> (Inr ch, log1)
         | None \<Rightarrow> (forum_by_name g (channels_cache c log1 (gid g)) channelIdentifier, log1))"

section \<open>Thread views\<close>

record tag_view =
  tv_id :: string
  tv_name :: string
  tv_emoji :: "emoji option"

definition threadTags :: "channel \<Rightarrow> channel \<Rightarrow> tag_view list" where
  "threadTags forumChannel thread =
     map (\<lambda>tagId.
            case find (\<lambda>t. tag_id t = tagId) (availableTags forumChannel) of
              Some t \<Rightarrow> \<lparr>tv_id = tag_id t, tv_name = tag_name t, tv_emoji = tag_emoji t\<rparr>
            | None \<Rightarrow> \<lparr>tv_id = tagId, tv_name = ''Unknown Tag'', tv_emoji = None\<rparr>)
         (appliedTags thread)"

text \<open>
  The projection of a thread in \<open>list-threads\<close> and \<open>search-threads\<close>; the counters and
  the message and pin fields the source copies as they are, are left out.
\<close>

record thread_view =
  threadId :: string
  threadName :: string
  view_createdTimestamp :: int
  view_archived :: bool
  view_locked :: bool
  view_tags :: "tag_view list"

definition format_thread :: "channel \<Rightarrow> channel \<Rightarrow> thread_view" where
  "format_thread forumChannel thread =
     \<lparr>threadId = cid thread, threadName = cname thread,
      view_createdTimestamp = createdTimestamp thread, view_archived = archived thread,
      view_locked = locked thread, view_tags = threadTags forumChannel thread\<rparr>"

section \<open>The handlers\<close>

subsection \<open>\<open>read-forum-threads\<close>\<close>

text \<open>
  The optional \<open>before\<close> argument is a string or a number. The handler does two things
  with it, \<open>if (before)\<close> and \<open>String(before)\<close>, so a number is given here by what these
  two make of it: whether it is truthy (neither zero nor NaN) and the text that \<open>String\<close>
  prints for it. The empty string is falsy too.
\<close>

datatype before_arg = BeforeString string | BeforeNumber (truthy: bool) (printed: string)

fun before_option :: "before_arg option \<Rightarrow> string option" where
  "before_option None = None"
| "before_option (Some (BeforeString s)) = (if s = [] then None else Some s)"
| "before_option (Some (BeforeNumber t p)) = (if t then Some p else None)"

text \<open>
  One entry of the result; the messages are kept as fetched (the source copies their
  fields into a plain object one by one).
\<close>

record forum_thread_entry =
  entry_thread :: string
  entry_threadId :: string
  entry_tags :: "tag_view list"
  entry_messages :: "message list"

text \<open>The \<open>for (const thread of threadList)\<close> loop.\<close>

fun read_threads_loop ::
  "client \<Rightarrow> channel \<Rightarrow> before_arg option \<Rightarrow> channel list \<Rightarrow> forum_thread_entry list \<Rightarrow>
   call list \<Rightarrow> forum_thread_entry list outcome" where
  "read_threads_loop c forumChannel before [] result log = (Inr result, log)"
| "read_threads_loop c forumChannel before (thread # rest) result log =
     (let fetchOptions = FetchOptions 10 (before_option before)
      in and_then
           (await_call (MessagesFetch (cid thread) fetchOptions)
              (messages_fetch c log (cid thread) fetchOptions) log)
           (\<lambda>threadMessages log1.
              read_threads_loop c forumChannel before rest
                (result @ [\<lparr>entry_thread = cname thread, entry_threadId = cid thread,
                             entry_tags = threadTags forumChannel thread,
                             entry_messages = threadMessages\<rparr>])
                log1))"

definition read_forum_threads ::
  "client \<Rightarrow> string option \<Rightarrow> string \<Rightarrow> nat \<Rightarrow> before_arg option \<Rightarrow> call list \<Rightarrow>
   forum_thread_entry list outcome" where
  "read_forum_threads c server channelIdentifier limit before log =
     and_then (findGuild c server log) (\<lambda>g log1.
     and_then (findForum c g channelIdentifier log1) (\<lambda>forumChannel log2.
     and_then
       (await_call (FetchActive (cid forumChannel))
          (threads_fetchActive c log2 (cid forumChannel)) log2)
       (\<lambda>threads log3.
          read_threads_loop c forumChannel before (slice0 limit threads) [] log3)))"

subsection \<open>\<open>add-thread-tags\<close>\<close>

text \<open>The loop over \<open>tagNames\<close> that fills \<open>tagIds\<close> and \<open>notFoundTags\<close>.\<close>

fun resolve_tag_names ::
  "tag list \<Rightarrow> string list \<Rightarrow> string list \<times> string list \<Rightarrow> string list \<times> string list" where
  "resolve_tag_names available [] acc = acc"
| "resolve_tag_names available (tagName # rest) (tagIds, notFoundTags) =
     (case find (\<lambda>t. toLowerCase (tag_name t) = toLowerCase tagName) available of
        Some foundTag \<Rightarrow>
          resolve_tag_names available rest (tagIds @ [tag_id foundTag], notFoundTags)
      | None \<Rightarrow> resolve_tag_names available rest (tagIds, notFoundTags @ [tagName]))"

definition updatedTagNames :: "channel \<Rightarrow> string list \<Rightarrow> string list" where
  "updatedTagNames forumChannel newTagIds =
     map (\<lambda>tagId. case find (\<lambda>t. tag_id t = tagId) (availableTags forumChannel) of
                     Some t \<Rightarrow> tag_name t
                   | None \<Rightarrow> ''Unknown Tag'')
         newTagIds"

text \<open>From the resolved forum and the fetched thread on.\<close>

definition apply_tag_names ::
  "client \<Rightarrow> channel \<Rightarrow> channel \<Rightarrow> string list \<Rightarrow> call list \<Rightarrow> string outcome" where
  "apply_tag_names c forumChannel thread tagNames log =
     (case resolve_tag_names (availableTags forumChannel) tagNames ([], []) of
        (tagIds, notFoundTags) \<Rightarrow>
          if length notFoundTags > 0 then
            (Inl (Error (''Tags not found: '' @ array_join '', '' notFoundTags
                   @ ''. Available tags: ''
                   @ array_join '', '' (map (\<lambda>t. quoted (tag_name t)) (availableTags forumChannel)))),
             log)
          else
            (let currentTagIds = appliedTags thread;
                 newTagIds = new_Set (currentTagIds @ tagIds)
             in and_then
                  (await_call (SetAppliedTags (cid thread) newTagIds)
                     (thread_setAppliedTags c log (cid thread) newTagIds) log)
                  (\<lambda>u log1.
                     (Inr (''Tags added successfully to thread '' @ quoted (cname thread)
                        @ '' in #'' @ cname forumChannel @ ''!'' @ [CHR 0x0A] @ ''Applied tags: ''
                        @ array_join '', '' (updatedTagNames forumChannel newTagIds)), log1))))"

definition add_thread_tags ::
  "client \<Rightarrow> string option \<Rightarrow> string \<Rightarrow> string \<Rightarrow> string list \<Rightarrow> call list \<Rightarrow> string outcome" where
  "add_thread_tags c server channelIdentifier thread_id tagNames log =
     and_then (findGuild c server log) (\<lambda>g log1.
     and_then (findForum c g channelIdentifier log1) (\<lambda>forumChannel log2.
     and_then
       (await_call (ChannelsFetch (gid g) thread_id)
          (channels_fetch c log2 (gid g) thread_id) log2)
       (\<lambda>fetched log3.
          case fetched of
            None \<Rightarrow>
              (Inl (Error (''Thread '' @ quoted thread_id @ '' not found in forum channel ''
                     @ quoted (cname forumChannel))), log3)
          | Some thread \<Rightarrow>
              if ctype thread \<noteq> PublicThread \<or> parent_id thread \<noteq> Some (cid forumChannel) then
                (Inl (Error (''Thread '' @ quoted thread_id @ '' not found in forum channel ''
                       @ quoted (cname forumChannel))), log3)
              else apply_tag_names c forumChannel thread tagNames log3)))"

subsection \<open>\<open>list-threads\<close>\<close>

record list_result =
  list_forumChannel :: string
  list_server :: string
  list_totalThreads :: nat
  list_includeArchived :: bool
  list_threads_out :: "thread_view list"

definition list_threads ::
  "client \<Rightarrow> string option \<Rightarrow> string \<Rightarrow> nat \<Rightarrow> bool \<Rightarrow> call list \<Rightarrow> list_result outcome" where
  "list_threads c server channelIdentifier limit includeArchived log =
     and_then (findGuild c server log) (\<lambda>g log1.
     and_then (findForum c g channelIdentifier log1) (\<lambda>forumChannel log2.
     and_then
       (await_call (FetchActive (cid forumChannel))
          (threads_fetchActive c log2 (cid forumChannel)) log2)
       (\<lambda>activeThreads log3.
     and_then
       (if includeArchived then
          and_then
            (await_call (FetchArchived (cid forumChannel) None)
               (threads_fetchArchived c log3 (cid forumChannel) None) log3)
            (\<lambda>archivedThreads log4.
               (Inr (coll_concat (coll_concat [] activeThreads) archivedThreads), log4))
        else (Inr (coll_concat [] activeThreads), log3))
       (\<lambda>allThreads log5.
          (let result = map (format_thread forumChannel) (threadList limit allThreads)
           in (Inr \<lparr>list_forumChannel = cname forumChannel, list_server = gname g,
                     list_totalThreads = length result,
                     list_includeArchived = includeArchived,
                     list_threads_out = result\<rparr>, log5))))))"

subsection \<open>\<open>search-threads\<close>\<close>

definition maxFetches :: nat where
  "maxFetches = 10"

record loop_state =
  hasMore :: bool
  before_cursor :: "string option"
  fetchCount :: nat
  allThreads :: "channel list"

text \<open>
  The \<open>while (hasMore && fetchCount < maxFetches)\<close> loop over the archived threads. A
  cursor is sent when \<open>before\<close> is truthy, that is set and not the empty string.
\<close>

definition archivedOptions :: "string option \<Rightarrow> fetch_options" where
  "archivedOptions before =
     FetchOptions 100 (case before of None \<Rightarrow> None
                                   | Some b \<Rightarrow> if b = [] then None else Some b)"

function archived_loop ::
  "client \<Rightarrow> string \<Rightarrow> loop_state \<Rightarrow> call list \<Rightarrow> loop_state outcome" where
  "archived_loop c forum_id st log =
     (if hasMore st \<and> fetchCount st < maxFetches then
        (case threads_fetchArchived c log forum_id (Some (archivedOptions (before_cursor st))) of
           Inl f \<Rightarrow>
             (Inl (Rejected f),
              log @ [FetchArchived forum_id (Some (archivedOptions (before_cursor st)))])
         | Inr batch \<Rightarrow>
             if length batch = 0 then
               archived_loop c forum_id (st\<lparr>hasMore := False\<rparr>)
                 (log @ [FetchArchived forum_id (Some (archivedOptions (before_cursor st)))])
             else
               archived_loop c forum_id
                 (st\<lparr>allThreads := coll_concat (allThreads st) batch,
                     before_cursor := Some (last (map cid batch)),
                     fetchCount := fetchCount st + 1\<rparr>)
                 (log @ [FetchArchived forum_id (Some (archivedOptions (before_cursor st)))]))
      else (Inr st, log))"
  by pat_completeness auto
termination
  by (relation "measure (\<lambda>(c, forum_id, st, log).
        (if hasMore st then 1 else 0) + (maxFetches - fetchCount st))") auto

declare archived_loop.simps [simp del]

record search_result =
  search_forumChannel :: string
  search_server :: string
  search_query :: string
  search_exactMatch :: bool
  totalFound :: nat
  totalSearched :: nat
  search_includeArchived :: bool
  search_threads_out :: "thread_view list"

text \<open>The collection of the threads to search: the active ones, then the archived batches.\<close>

definition collect_threads ::
  "client \<Rightarrow> channel \<Rightarrow> bool \<Rightarrow> call list \<Rightarrow> channel list outcome" where
  "collect_threads c forumChannel includeArchived log =
     and_then
       (await_call (FetchActive (cid forumChannel))
          (threads_fetchActive c log (cid forumChannel)) log)
       (\<lambda>activeThreads log1.
          if includeArchived then
            and_then
              (archived_loop c (cid forumChannel)
                 \<lparr>hasMore = True, before_cursor = None, fetchCount = 0,
                  allThreads = coll_concat [] activeThreads\<rparr> log1)
              (\<lambda>st log2. (Inr (allThreads st), log2))
          else (Inr (coll_concat [] activeThreads), log1))"

definition search_threads ::
  "client \<Rightarrow> string option \<Rightarrow> string \<Rightarrow> string \<Rightarrow> nat \<Rightarrow> bool \<Rightarrow> bool \<Rightarrow> call list \<Rightarrow>
   search_result outcome" where
  "search_threads c server channelIdentifier query limit includeArchived exactMatch log =
     and_then (findGuild c server log) (\<lambda>g log1.
     and_then (findForum c g channelIdentifier log1) (\<lambda>forumChannel log2.
     and_then (collect_threads c forumChannel includeArchived log2) (\<lambda>threads log3.
       (let filtered = filteredThreads query exactMatch threads;
            result = map (format_thread forumChannel) (threadList limit filtered)
        in (Inr \<lparr>search_forumChannel = cname forumChannel, search_server = gname g,
                  search_query = query, search_exactMatch = exactMatch,
                  totalFound = length result, totalSearched = length filtered,
                  search_includeArchived = includeArchived,
                  search_threads_out = result\<rparr>, log3)))))"

subsection \<open>\<open>unarchive-thread\<close>\<close>

definition unarchive_thread ::
  "client \<Rightarrow> string option \<Rightarrow> string \<Rightarrow> string option \<Rightarrow> call list \<Rightarrow> string outcome" where
  "unarchive_thread c server thread_id reason log =
     and_then (findGuild c server log) (\<lambda>g log1.
     and_then
       (await_call (ChannelsFetch (gid g) thread_id)
          (channels_fetch c log1 (gid g) thread_id) log1)
       (\<lambda>fetched log2.
          case fetched of
            None \<Rightarrow>
              (Inl (Error (''Thread '' @ quoted thread_id @ '' not found or is not a thread'')),
               log2)
          | Some thread \<Rightarrow>
              if \<not> isThreadChannel thread then
                (Inl (Error (''Thread '' @ quoted thread_id @ '' not found or is not a thread'')),
                 log2)
              else if \<not> archived thread then
                (Inr (''Thread '' @ quoted (cname thread) @ '' is already active (not archived).''),
                 log2)
              else
                and_then
                  (await_call (SetArchived (cid thread) False reason)
                     (thread_setArchived c log2 (cid thread) False reason) log2)
                  (\<lambda>u log3.
                     (Inr (''Thread '' @ quoted (cname thread) @ '' (ID: '' @ cid thread
                        @ '') has been successfully unarchived and is now active.''
                        @ (case reason of
                             None \<Rightarrow> []
                           | Some r \<Rightarrow> if r = [] then []
                                       else [CHR 0x0A] @ ''Reason: '' @ r)), log3))))"

section \<open>Example data\<close>

definition example_thread :: "string \<Rightarrow> string \<Rightarrow> int \<Rightarrow> channel" where
  "example_thread i n ts =
     \<lparr>cid = i, cname = n, ctype = PublicThread, guild_id = ''1'', parent_id = Some ''f1'',
      archived = False, locked = False, createdTimestamp = ts, appliedTags = [],
      availableTags = []\<rparr>"


text \<open>Two guilds of the same name, and clients that know them.\<close>

definition alpha1 :: guild where
  "alpha1 = \<lparr>gid = ''1'', gname = ''Alpha''\<rparr>"

definition alpha2 :: guild where
  "alpha2 = \<lparr>gid = ''2'', gname = ''Alpha''\<rparr>"

text \<open>A client every request of which is rejected with a failure that is not "not found".\<close>

definition offline_client :: client where
  "offline_client =
     \<lparr>guilds_cache = (\<lambda>log. []),
      guilds_fetch = (\<lambda>log i. Inl (OtherFailure ''Service Unavailable'')),
      channels_cache = (\<lambda>log g. []),
      channels_fetch = (\<lambda>log g i. Inl (OtherFailure ''Service Unavailable'')),
      threads_fetchActive = (\<lambda>log f. Inl (OtherFailure ''Service Unavailable'')),
      threads_fetchArchived = (\<lambda>log f opts. Inl (OtherFailure ''Service Unavailable'')),
      messages_fetch = (\<lambda>log t opts. Inl (OtherFailure ''Service Unavailable'')),
      thread_setAppliedTags = (\<lambda>log t ids. Inl (OtherFailure ''Service Unavailable'')),
      thread_setArchived = (\<lambda>log t a r. Inl (OtherFailure ''Service Unavailable''))\<rparr>"

definition outage_client :: client where
  "outage_client = offline_client\<lparr>guilds_cache := (\<lambda>log. [alpha1])\<rparr>"

definition twin_client :: client where
  "twin_client = offline_client
     \<lparr>guilds_cache := (\<lambda>log. [alpha1, alpha2]),
      guilds_fetch := (\<lambda>log i. if i = ''1'' then Inr (Some alpha1)
                                else if i = ''2'' then Inr (Some alpha2)
                                else Inl NotFoundFailure)\<rparr>"

text \<open>
  A guild with one forum, \<open>qna\<close>, that has three tags, one active thread and two archived
  threads. The archived threads come one per request, the older one behind the cursor of
  the newer one.
\<close>

definition qna_forum :: channel where
  "qna_forum =
     \<lparr>cid = ''f1'', cname = ''qna'', ctype = GuildForum, guild_id = ''1'', parent_id = None,
      archived = False, locked = False, createdTimestamp = 0, appliedTags = [],
      availableTags =
        [\<lparr>tag_id = ''a1'', tag_name = ''Answered'', tag_emoji = None\<rparr>,
         \<lparr>tag_id = ''a2'', tag_name = ''Important'', tag_emoji = None\<rparr>,
         \<lparr>tag_id = ''a3'', tag_name = ''Pending'', tag_emoji = None\<rparr>]\<rparr>"

definition active_thread :: channel where
  "active_thread = example_thread ''t1'' ''Library'' 30"

definition old_thread8 :: channel where
  "old_thread8 = (example_thread ''t8'' ''Old question'' 8)\<lparr>archived := True\<rparr>"

definition old_thread7 :: channel where
  "old_thread7 = (example_thread ''t7'' ''Older question'' 7)\<lparr>archived := True\<rparr>"

definition some_messages :: "message list" where
  "some_messages =
     map (\<lambda>n. \<lparr>mid = replicate n CHR ''m'', author = ''ann'', content = ''hello''\<rparr>) [1..<13]"

definition forum_client :: client where
  "forum_client = offline_client
     \<lparr>guilds_cache := (\<lambda>log. [alpha1]),
      guilds_fetch := (\<lambda>log i. if i = ''1'' then Inr (Some alpha1) else Inl NotFoundFailure),
      channels_cache := (\<lambda>log g. [qna_forum]),
      channels_fetch :=
        (\<lambda>log g i. if i = ''f1'' then Inr (Some qna_forum)
                    else if i = ''t1'' then Inr (Some active_thread)
                    else Inl NotFoundFailure),
      threads_fetchActive := (\<lambda>log f. Inr [active_thread]),
      threads_fetchArchived :=
        (\<lambda>log f opts.
           case opts of
             None \<Rightarrow> Inr [old_thread8]
           | Some opt \<Rightarrow>
               (case opt_before opt of
                  None \<Rightarrow> Inr [old_thread8]
                | Some b \<Rightarrow> if b = ''t8'' then Inr [old_thread7] else Inr [])),
      messages_fetch := (\<lambda>log t opts. Inr (take (opt_limit opts) some_messages)),
      thread_setAppliedTags := (\<lambda>log t ids. Inr ()),
      thread_setArchived := (\<lambda>log t a r. Inr ())\<rparr>"

text \<open>A client whose archived-thread source never runs dry.\<close>

definition endless_client :: client where
  "endless_client = forum_client\<lparr>threads_fetchArchived := (\<lambda>log f opts. Inr [old_thread8])\<rparr>"

text \<open>
  A client that answers the first three archived-thread requests with a batch of a
  hundred threads each and every later one with the empty batch. The ids of the threads
  are \<open>t\<close> and a number in decimal.
\<close>

fun digits :: "nat \<Rightarrow> string" where
  "digits n = (if n < 10 then [char_of (48 + n)]
               else digits (n div 10) @ [char_of (48 + n mod 10)])"

definition hundred :: "nat \<Rightarrow> channel list" where
  "hundred k =
     map (\<lambda>i. (example_thread (CHR ''t'' # digits (100 * k + i)) ''archived''
                  (- int (100 * k + i)))\<lparr>archived := True\<rparr>)
         [0..<100]"

definition counting_client :: client where
  "counting_client = forum_client
     \<lparr>threads_fetchArchived :=
        (\<lambda>log f opts. if length (filter is_archived_request log) < 3
                       then Inr (hundred (length (filter is_archived_request log)))
                       else Inr [])\<rparr>"


text \<open>
  Threads created at the times 5, 3, 3 and 1, in this order and in another one, and the
  forum with these as its active threads.
\<close>

definition stamp_threads :: "channel list" where
  "stamp_threads =
     [example_thread ''a'' ''A'' 5, example_thread ''b'' ''B'' 3,
      example_thread ''c'' ''C'' 3, example_thread ''d'' ''D'' 1]"

definition shuffled_threads :: "channel list" where
  "shuffled_threads =
     [example_thread ''c'' ''C'' 3, example_thread ''d'' ''D'' 1,
      example_thread ''a'' ''A'' 5, example_thread ''b'' ''B'' 3]"

definition stamps_client :: client where
  "stamps_client = forum_client
     \<lparr>threads_fetchActive := (\<lambda>log f. Inr stamp_threads),
      threads_fetchArchived := (\<lambda>log f opts. Inr [])\<rparr>"

definition shuffled_client :: client where
  "shuffled_client = forum_client
     \<lparr>threads_fetchActive := (\<lambda>log f. Inr shuffled_threads),
      threads_fetchArchived := (\<lambda>log f opts. Inr [])\<rparr>"

section \<open>Properties of the sort\<close>

lemma mset_insert_cmp: "mset (insert_cmp cmp x ys) = add_mset x (mset ys)"
  by (induction ys) simp_all

lemma mset_array_sort: "mset (array_sort cmp xs) = mset xs"
  by (induction xs) (simp_all add: mset_insert_cmp)

lemma set_insert_cmp: "set (insert_cmp cmp x ys) = insert x (set ys)"
  by (induction ys) auto

lemma descending_insert:
  "sorted_wrt (\<lambda>a b. createdTimestamp b \<le> createdTimestamp a) ys \<Longrightarrow>
   sorted_wrt (\<lambda>a b. createdTimestamp b \<le> createdTimestamp a) (insert_cmp newest_first x ys)"
  by (induction ys) (auto simp: newest_first_def set_insert_cmp)

lemma descending_array_sort:
  "sorted_wrt (\<lambda>a b. createdTimestamp b \<le> createdTimestamp a) (array_sort newest_first xs)"
  by (induction xs) (simp_all add: descending_insert)

lemma insert_other_timestamp:
  "createdTimestamp x \<noteq> k \<Longrightarrow>
   filter (\<lambda>t. createdTimestamp t = k) (insert_cmp newest_first x ys) =
   filter (\<lambda>t. createdTimestamp t = k) ys"
  by (induction ys) simp_all

lemma insert_same_timestamp:
  "sorted_wrt (\<lambda>a b. createdTimestamp b \<le> createdTimestamp a) ys \<Longrightarrow>
   filter (\<lambda>t. createdTimestamp t = createdTimestamp x) (insert_cmp newest_first x ys) =
   x # filter (\<lambda>t. createdTimestamp t = createdTimestamp x) ys"
proof (induction ys)
  case Nil
  show ?case by simp
next
  case (Cons y ys)
  show ?case
  proof (cases "newest_first x y \<le> 0")
    case True
    then show ?thesis by simp
  next
    case False
    then have "createdTimestamp x < createdTimestamp y"
      by (simp add: newest_first_def)
    with Cons False show ?thesis by simp
  qed
qed

lemma array_sort_stable:
  "filter (\<lambda>t. createdTimestamp t = k) (array_sort newest_first xs) =
   filter (\<lambda>t. createdTimestamp t = k) xs"
proof (induction xs)
  case Nil
  show ?case by simp
next
  case (Cons x xs)
  show ?case
  proof (cases "createdTimestamp x = k")
    case True
    then show ?thesis
      using insert_same_timestamp [OF descending_array_sort, of x xs] Cons.IH by simp
  next
    case False
    then show ?thesis
      by (simp add: insert_other_timestamp Cons.IH)
  qed
qed


lemma array_sort_newest_first_stable:
  "newest_first_stable threads (array_sort newest_first threads)"
  unfolding newest_first_stable_def
  by (intro conjI allI mset_array_sort descending_array_sort array_sort_stable)

section \<open>Case-insensitive matching\<close>

lemma letter_codes:
  "map (\<lambda>p. (of_char (fst p) :: nat, of_char (snd p) :: nat)) (zip upper_letters lower_letters) =
     map (\<lambda>n. (n, n + 32)) ([65..<91] @ [192..<215] @ [216..<223])"
  by (simp add: upper_letters_def lower_letters_def)

lemma letter_pair_iff:
  "((c, d) \<in> set (zip upper_letters lower_letters)) =
     (is_upper c \<and> (of_char d :: nat) = of_char c + 32)"
proof -
  let ?codes = "\<lambda>p :: char \<times> char. (of_char (fst p) :: nat, of_char (snd p) :: nat)"
  have inj: "inj ?codes"
    by (auto simp: inj_on_def)
  have "((c, d) \<in> set (zip upper_letters lower_letters)) =
      (?codes (c, d) \<in> ?codes ` set (zip upper_letters lower_letters))"
    by (rule inj_image_mem_iff [OF inj, symmetric])
  also have "\<dots> = ((of_char c :: nat, of_char d :: nat) \<in>
      set (map (\<lambda>n. (n, n + 32)) ([65..<91] @ [192..<215] @ [216..<223])))"
    by (simp only: letter_codes [symmetric] set_map fst_conv snd_conv)
  also have "\<dots> = (((of_char c :: nat) \<in> set ([65..<91] @ [192..<215] @ [216..<223]))
      \<and> (of_char d :: nat) = of_char c + 32)"
    by (auto simp del: upt_rec_numeral)
  also have "\<dots> = (is_upper c \<and> (of_char d :: nat) = of_char c + 32)"
    by (auto simp del: upt_rec_numeral simp: is_upper_def)
  finally show ?thesis .
qed

lemma code_lower_char:
  "(of_char (lower_char c) :: nat) = (if is_upper c then of_char c + 32 else of_char c)"
  by (auto simp: lower_char_def is_upper_def)

lemma char_eq_iff_code: "(c = d) = ((of_char c :: nat) = of_char d)"
  by (metis char_of_char)

lemma lower_char_eq_iff: "(lower_char c = lower_char d) = same_letter c d"
  unfolding char_eq_iff_code [of "lower_char c" "lower_char d"] code_lower_char
    same_letter_def letter_pair_iff char_eq_iff_code [of c d] is_upper_def
  by auto

lemma toLowerCase_eq_iff: "(toLowerCase a = toLowerCase b) = ci_equal a b"
proof (induction a arbitrary: b)
  case Nil
  show ?case by (simp add: toLowerCase_def ci_equal_def)
next
  case (Cons x xs)
  show ?case
  proof (cases b)
    case Nil
    then show ?thesis by (simp add: toLowerCase_def ci_equal_def)
  next
    case (Cons y ys)
    have "(toLowerCase xs = toLowerCase ys) = ci_equal xs ys"
      by (rule Cons.IH)
    then show ?thesis
      using Cons by (simp add: toLowerCase_def ci_equal_def lower_char_eq_iff)
  qed
qed






text \<open>The accented capitals fold as the letters of the alphabet do.\<close>

lemma latin1_fold_example:
  "toLowerCase [CHR 0xC9, CHR ''T'', CHR 0xC9] = [CHR 0xE9, CHR ''t'', CHR 0xE9]"
  "ci_equal [CHR 0xC9, CHR ''T'', CHR 0xC9] [CHR 0xE9, CHR ''t'', CHR 0xE9]"
  by code_simp+

section \<open>Guild resolution\<close>

lemma guild_by_name_ci:
  "guild_by_name cache i =
     (case filter (\<lambda>g. ci_equal (gname g) i) cache of
        [] \<Rightarrow> Inl (Error (''Server '' @ quoted i @ '' not found. Available servers: ''
                  @ available_servers cache))
      | [g] \<Rightarrow> Inr g
      | g # h # rest \<Rightarrow>
          Inl (Error (''Multiple servers found with name '' @ quoted i @ '': ''
                 @ array_join '', '' (map (\<lambda>g. gname g @ '' (ID: '' @ gid g @ '')'') (g # h # rest))
                 @ ''. Please specify the server ID.'')))"
  by (simp add: guild_by_name_def Let_def toLowerCase_eq_iff split: list.split)

lemma two_members_length:
  assumes "x \<in> set xs" "y \<in> set xs" "x \<noteq> y"
  shows "1 < length xs"
proof -
  have "card {x, y} \<le> card (set xs)"
    using assms by (intro card_mono) auto
  moreover have "card {x, y} = 2"
    using assms by simp
  moreover have "card (set xs) \<le> length xs"
    by (rule card_length)
  ultimately show ?thesis by simp
qed

lemma findGuild_present:
  "i \<noteq> [] \<Longrightarrow> findGuild c (Some i) log = findGuild_by c i log"
  by simp

text \<open>
  C5, as the code has it. With an identifier present, a direct fetch by id that fails, for
  whatever reason, is followed by the case-insensitive name search over the cached guilds:
  no match is an error that lists the available servers, one match is the result, several
  matches are an error that lists each match with its id. The class of the failure plays no
  part. A fetch that returns a guild gives that guild, and no name is looked up.
\<close>

theorem findGuild_falls_back_on_any_failure:
  assumes "guildIdentifier \<noteq> []"
  shows "(\<forall>f. guilds_fetch c log guildIdentifier = Inl f \<longrightarrow>
            findGuild c (Some guildIdentifier) log =
              ((case filter (\<lambda>g. ci_equal (gname g) guildIdentifier)
                       (guilds_cache c (log @ [GuildsFetch guildIdentifier])) of
                  [] \<Rightarrow> Inl (Error (''Server '' @ quoted guildIdentifier
                           @ '' not found. Available servers: ''
                           @ available_servers
                               (guilds_cache c (log @ [GuildsFetch guildIdentifier]))))
                | [g] \<Rightarrow> Inr g
                | g # h # rest \<Rightarrow>
                    Inl (Error (''Multiple servers found with name '' @ quoted guildIdentifier
                           @ '': ''
                           @ array_join '', ''
                               (map (\<lambda>g. gname g @ '' (ID: '' @ gid g @ '')'') (g # h # rest))
                           @ ''. Please specify the server ID.''))),
               log @ [GuildsFetch guildIdentifier]))
       \<and> (\<forall>g. guilds_fetch c log guildIdentifier = Inr (Some g) \<longrightarrow>
            findGuild c (Some guildIdentifier) log = (Inr g, log @ [GuildsFetch guildIdentifier]))"
proof (intro conjI allI impI)
  fix f
  assume "guilds_fetch c log guildIdentifier = Inl f"
  with assms show "findGuild c (Some guildIdentifier) log =
              ((case filter (\<lambda>g. ci_equal (gname g) guildIdentifier)
                       (guilds_cache c (log @ [GuildsFetch guildIdentifier])) of
                  [] \<Rightarrow> Inl (Error (''Server '' @ quoted guildIdentifier
                           @ '' not found. Available servers: ''
                           @ available_servers
                               (guilds_cache c (log @ [GuildsFetch guildIdentifier]))))
                | [g] \<Rightarrow> Inr g
                | g # h # rest \<Rightarrow>
                    Inl (Error (''Multiple servers found with name '' @ quoted guildIdentifier
                           @ '': ''
                           @ array_join '', ''
                               (map (\<lambda>g. gname g @ '' (ID: '' @ gid g @ '')'') (g # h # rest))
                           @ ''. Please specify the server ID.''))),
               log @ [GuildsFetch guildIdentifier])"
    by (simp add: findGuild_by_def Let_def guild_by_name_ci)
next
  fix g
  assume "guilds_fetch c log guildIdentifier = Inr (Some g)"
  with assms show
    "findGuild c (Some guildIdentifier) log = (Inr g, log @ [GuildsFetch guildIdentifier])"
    by (simp add: findGuild_by_def Let_def)
qed

lemma ci_equal_alpha: "ci_equal ''Alpha'' ''alpha''"
  by code_simp

theorem findGuild_falls_back_on_any_failure_witness:
  "findGuild outage_client (Some ''alpha'') [] = (Inr alpha1, [GuildsFetch ''alpha''])"
proof -
  have a: "''alpha'' \<noteq> []" by simp
  have b: "guilds_fetch outage_client [] ''alpha'' = Inl (OtherFailure ''Service Unavailable'')"
    by (simp add: outage_client_def offline_client_def)
  show ?thesis
    using findGuild_falls_back_on_any_failure [OF a, of outage_client "[]"] b
    by (simp add: outage_client_def offline_client_def alpha1_def ci_equal_alpha)
qed

text \<open>
  C5 as stated does not hold: the fetch below is rejected with a failure other than
  "not found", and the identifier is resolved by name all the same.
\<close>

theorem findGuild_other_failure_counterexample:
  "guilds_fetch outage_client [] ''alpha'' = Inl (OtherFailure ''Service Unavailable'')
   \<and> OtherFailure ''Service Unavailable'' \<noteq> NotFoundFailure
   \<and> fst (findGuild outage_client (Some ''alpha'') []) = Inr \<lparr>gid = ''1'', gname = ''Alpha''\<rparr>"
  by (simp add: outage_client_def offline_client_def alpha1_def findGuild_by_def
      guild_by_name_ci ci_equal_alpha)

text \<open>
  C6. When two distinct cached guilds have the name \<open>N\<close> and the fetch of \<open>N\<close> as an id
  fails, resolving \<open>N\<close> fails with the ambiguity error that lists every guild whose name
  matches, the two among them, each with its name and id; resolving either guild's id, which
  the client fetches, gives that guild. (An identifier is present when it is not the empty
  string.)
\<close>

theorem findGuild_duplicate_name:
  assumes "N \<noteq> []"
    and "guilds_fetch c log N = Inl f"
    and "g1 \<in> set (guilds_cache c (log @ [GuildsFetch N]))"
    and "g2 \<in> set (guilds_cache c (log @ [GuildsFetch N]))"
    and "g1 \<noteq> g2" and "gname g1 = N" and "gname g2 = N"
    and "gid g1 \<noteq> []" and "guilds_fetch c log (gid g1) = Inr (Some g1)"
    and "gid g2 \<noteq> []" and "guilds_fetch c log (gid g2) = Inr (Some g2)"
  shows "fst (findGuild c (Some N) log) =
           Inl (Error (''Multiple servers found with name '' @ quoted N @ '': ''
                  @ array_join '', ''
                      (map (\<lambda>g. gname g @ '' (ID: '' @ gid g @ '')'')
                         (filter (\<lambda>g. ci_equal (gname g) N)
                            (guilds_cache c (log @ [GuildsFetch N]))))
                  @ ''. Please specify the server ID.''))
       \<and> g1 \<in> set (filter (\<lambda>g. ci_equal (gname g) N) (guilds_cache c (log @ [GuildsFetch N])))
       \<and> g2 \<in> set (filter (\<lambda>g. ci_equal (gname g) N) (guilds_cache c (log @ [GuildsFetch N])))
       \<and> fst (findGuild c (Some (gid g1)) log) = Inr g1
       \<and> fst (findGuild c (Some (gid g2)) log) = Inr g2"
proof -
  let ?cache = "guilds_cache c (log @ [GuildsFetch N])"
  let ?ms = "filter (\<lambda>g. ci_equal (gname g) N) ?cache"
  have refl: "ci_equal N N"
    using toLowerCase_eq_iff [of N N] by simp
  have m1: "g1 \<in> set ?ms" and m2: "g2 \<in> set ?ms"
    using assms(3,4,6,7) refl by simp_all
  have "1 < length ?ms"
    using two_members_length [OF m1 m2 assms(5)] .
  then obtain g h rest where ms: "?ms = g # h # rest"
    by (cases ?ms; cases "tl ?ms") auto
  have "fst (findGuild c (Some N) log) =
           Inl (Error (''Multiple servers found with name '' @ quoted N @ '': ''
                  @ array_join '', '' (map (\<lambda>g. gname g @ '' (ID: '' @ gid g @ '')'') ?ms)
                  @ ''. Please specify the server ID.''))"
    using assms(1,2) ms by (simp add: findGuild_by_def Let_def guild_by_name_ci)
  moreover have "fst (findGuild c (Some (gid g1)) log) = Inr g1"
    using assms(8,9) by (simp add: findGuild_by_def Let_def)
  moreover have "fst (findGuild c (Some (gid g2)) log) = Inr g2"
    using assms(10,11) by (simp add: findGuild_by_def Let_def)
  ultimately show ?thesis
    using m1 m2 by blast
qed

lemma ci_equal_Alpha: "ci_equal ''Alpha'' ''Alpha''"
  by code_simp

theorem findGuild_duplicate_name_witness:
  "fst (findGuild twin_client (Some ''Alpha'') []) =
     Inl (Error (''Multiple servers found with name '' @ quoted ''Alpha''
            @ '': Alpha (ID: 1), Alpha (ID: 2). Please specify the server ID.''))
   \<and> fst (findGuild twin_client (Some ''1'') []) = Inr alpha1
   \<and> fst (findGuild twin_client (Some ''2'') []) = Inr alpha2"
proof -
  have h: "''Alpha'' \<noteq> []"
    "guilds_fetch twin_client [] ''Alpha'' = Inl NotFoundFailure"
    "alpha1 \<in> set (guilds_cache twin_client ([] @ [GuildsFetch ''Alpha'']))"
    "alpha2 \<in> set (guilds_cache twin_client ([] @ [GuildsFetch ''Alpha'']))"
    "alpha1 \<noteq> alpha2" "gname alpha1 = ''Alpha''" "gname alpha2 = ''Alpha''"
    "gid alpha1 \<noteq> []" "guilds_fetch twin_client [] (gid alpha1) = Inr (Some alpha1)"
    "gid alpha2 \<noteq> []" "guilds_fetch twin_client [] (gid alpha2) = Inr (Some alpha2)"
    by (simp_all add: twin_client_def offline_client_def alpha1_def alpha2_def)
  show ?thesis
    using findGuild_duplicate_name [OF h]
    by (simp add: twin_client_def offline_client_def alpha1_def alpha2_def ci_equal_Alpha)
qed

section \<open>What the resolvers add to the log\<close>

lemma findGuild_log:
  "snd (findGuild c server log) = log \<or> (\<exists>i. snd (findGuild c server log) = log @ [GuildsFetch i])"
  by (cases server)
     (auto simp: findGuild_unspecified_def findGuild_by_def Let_def
           split: list.splits sum.splits option.splits)

lemma findGuild_keeps:
  assumes "\<And>i. \<not> P (GuildsFetch i)"
  shows "filter P (snd (findGuild c server log)) = filter P log"
  using findGuild_log [of c server log] assms by auto

lemma findForum_log:
  "snd (findForum c g channelIdentifier log) = log @ [ChannelsFetch (gid g) channelIdentifier]"
  by (simp add: findForum_def Let_def split: option.splits sum.splits)

section \<open>\<open>unarchive-thread\<close>\<close>

text \<open>
  C9. When the thread that \<open>unarchive-thread\<close> fetches is a thread and is not archived, the
  handler returns the text saying that the thread is already active, and the calls it has
  made are the guild resolution and the fetch of the thread: no \<open>setArchived\<close>, and no
  mutating call at all, is added to the log.
\<close>

theorem unarchive_active_thread_is_noop:
  assumes "findGuild c server log = (Inr g, log1)"
    and "channels_fetch c log1 (gid g) thread_id = Inr (Some thread)"
    and "isThreadChannel thread"
    and "\<not> archived thread"
  shows "unarchive_thread c server thread_id reason log =
           (Inr (''Thread '' @ quoted (cname thread) @ '' is already active (not archived).''),
            log1 @ [ChannelsFetch (gid g) thread_id])
       \<and> filter is_mutating (snd (unarchive_thread c server thread_id reason log)) =
           filter is_mutating log"
proof -
  have run: "unarchive_thread c server thread_id reason log =
           (Inr (''Thread '' @ quoted (cname thread) @ '' is already active (not archived).''),
            log1 @ [ChannelsFetch (gid g) thread_id])"
    using assms by (simp add: unarchive_thread_def and_then_def await_call_def)
  have "filter is_mutating log1 = filter is_mutating log"
    using findGuild_keeps [of is_mutating c server log] assms(1) by simp
  with run show ?thesis by simp
qed

theorem unarchive_active_thread_is_noop_witness:
  "unarchive_thread forum_client None ''t1'' (Some ''reopen'') [] =
     (Inr (''Thread '' @ quoted ''Library'' @ '' is already active (not archived).''),
      [ChannelsFetch ''1'' ''t1''])"
proof -
  have h: "findGuild forum_client None [] = (Inr alpha1, [])"
    "channels_fetch forum_client [] (gid alpha1) ''t1'' = Inr (Some active_thread)"
    "isThreadChannel active_thread" "\<not> archived active_thread"
    by (simp_all add: forum_client_def offline_client_def findGuild_unspecified_def alpha1_def
        active_thread_def example_thread_def isThreadChannel_def)
  show ?thesis
    using unarchive_active_thread_is_noop [OF h, of "Some ''reopen''"]
    by (simp add: alpha1_def active_thread_def example_thread_def)
qed

section \<open>\<open>add-thread-tags\<close>\<close>

lemma resolve_tag_names_notFound:
  "snd (resolve_tag_names available names (ids, nf)) =
     nf @ filter (\<lambda>n. \<forall>t \<in> set available. \<not> ci_equal (tag_name t) n) names"
proof (induction names arbitrary: ids nf)
  case Nil
  show ?case by simp
next
  case (Cons n names)
  show ?case
  proof (cases "find (\<lambda>t. toLowerCase (tag_name t) = toLowerCase n) available")
    case None
    then have "\<forall>t \<in> set available. \<not> ci_equal (tag_name t) n"
      by (simp add: find_None_iff toLowerCase_eq_iff)
    with None Cons.IH [of ids "nf @ [n]"] show ?thesis by simp
  next
    case (Some t)
    then have "\<exists>t \<in> set available. ci_equal (tag_name t) n"
      by (auto simp: find_Some_iff toLowerCase_eq_iff)
    with Some Cons.IH [of "ids @ [tag_id t]" nf] show ?thesis by auto
  qed
qed

text \<open>
  C2. When the forum and the thread of an \<open>add-thread-tags\<close> call are resolved and some
  requested tag name has no case-insensitive match among the forum's tags, the call fails
  with the error that lists every unmatched name, in request order, and the names of all
  the forum's tags; the log gains the resolving fetches only, so no \<open>setAppliedTags\<close> and no
  other mutating call is issued, whatever the other requested names match.
\<close>

theorem add_thread_tags_all_or_nothing:
  assumes "findGuild c server log = (Inr g, log1)"
    and "findForum c g channelIdentifier log1 = (Inr forumChannel, log2)"
    and "channels_fetch c log2 (gid g) thread_id = Inr (Some thread)"
    and "ctype thread = PublicThread"
    and "parent_id thread = Some (cid forumChannel)"
    and "n \<in> set tagNames"
    and "\<forall>t \<in> set (availableTags forumChannel). \<not> ci_equal (tag_name t) n"
  shows "add_thread_tags c server channelIdentifier thread_id tagNames log =
           (Inl (Error (''Tags not found: ''
                   @ array_join '', ''
                       (filter (\<lambda>n. \<forall>t \<in> set (availableTags forumChannel).
                                      \<not> ci_equal (tag_name t) n) tagNames)
                   @ ''. Available tags: ''
                   @ array_join '', ''
                       (map (\<lambda>t. quoted (tag_name t)) (availableTags forumChannel)))),
            log2 @ [ChannelsFetch (gid g) thread_id])
       \<and> filter is_mutating (snd (add_thread_tags c server channelIdentifier thread_id tagNames log))
           = filter is_mutating log"
proof -
  let ?unmatched = "filter (\<lambda>n. \<forall>t \<in> set (availableTags forumChannel).
                                      \<not> ci_equal (tag_name t) n) tagNames"
  obtain ids nf where res:
    "resolve_tag_names (availableTags forumChannel) tagNames ([], []) = (ids, nf)"
    by (cases "resolve_tag_names (availableTags forumChannel) tagNames ([], [])")
  have nf: "nf = ?unmatched"
    using resolve_tag_names_notFound [of "availableTags forumChannel" tagNames "[]" "[]"] res
    by simp
  have "n \<in> set ?unmatched"
    using assms(6,7) by simp
  then have "0 < length nf"
    unfolding nf by (cases ?unmatched) auto
  then have inner: "apply_tag_names c forumChannel thread tagNames
             (log2 @ [ChannelsFetch (gid g) thread_id]) =
           (Inl (Error (''Tags not found: '' @ array_join '', '' ?unmatched
                   @ ''. Available tags: ''
                   @ array_join '', ''
                       (map (\<lambda>t. quoted (tag_name t)) (availableTags forumChannel)))),
            log2 @ [ChannelsFetch (gid g) thread_id])"
    using res nf by (simp add: apply_tag_names_def)
  have run: "add_thread_tags c server channelIdentifier thread_id tagNames log =
           apply_tag_names c forumChannel thread tagNames
             (log2 @ [ChannelsFetch (gid g) thread_id])"
    using assms(1-5) by (simp add: add_thread_tags_def and_then_def await_call_def)
  have "filter is_mutating log1 = filter is_mutating log"
    using findGuild_keeps [of is_mutating c server log] assms(1) by simp
  moreover have "log2 = log1 @ [ChannelsFetch (gid g) channelIdentifier]"
    using findForum_log [of c g channelIdentifier log1] assms(2) by simp
  ultimately have "filter is_mutating (log2 @ [ChannelsFetch (gid g) thread_id]) =
      filter is_mutating log"
    by simp
  with run inner show ?thesis by simp
qed

lemma unmatched_names_example:
  "filter (\<lambda>n. \<forall>t \<in> set (availableTags qna_forum). \<not> ci_equal (tag_name t) n)
     [''answered'', ''Bogus'', ''PENDING''] = [''Bogus'']"
  by code_simp

theorem add_thread_tags_all_or_nothing_witness:
  "add_thread_tags forum_client (Some ''1'') ''qna'' ''t1'' [''answered'', ''Bogus'', ''PENDING''] []
     = (Inl (Error (''Tags not found: Bogus. Available tags: '' @ quoted ''Answered'' @ '', ''
               @ quoted ''Important'' @ '', '' @ quoted ''Pending'')),
        [GuildsFetch ''1'', ChannelsFetch ''1'' ''qna'', ChannelsFetch ''1'' ''t1''])"
proof -
  have lower: "toLowerCase ''qna'' = ''qna''"
    by code_simp
  have h: "findGuild forum_client (Some ''1'') [] = (Inr alpha1, [GuildsFetch ''1''])"
    "findForum forum_client alpha1 ''qna'' [GuildsFetch ''1'']
       = (Inr qna_forum, [GuildsFetch ''1'', ChannelsFetch ''1'' ''qna''])"
    "channels_fetch forum_client [GuildsFetch ''1'', ChannelsFetch ''1'' ''qna''] (gid alpha1) ''t1''
       = Inr (Some active_thread)"
    "ctype active_thread = PublicThread"
    "parent_id active_thread = Some (cid qna_forum)"
    "''Bogus'' \<in> set [''answered'', ''Bogus'', ''PENDING'']"
    by (simp_all add: forum_client_def offline_client_def findGuild_by_def findForum_def
        forum_by_name_def forum_name_matches_def lower alpha1_def active_thread_def
        example_thread_def qna_forum_def)
  have unmatched: "\<forall>t \<in> set (availableTags qna_forum). \<not> ci_equal (tag_name t) ''Bogus''"
    by code_simp
  show ?thesis
    using add_thread_tags_all_or_nothing [OF h unmatched] unmatched_names_example
    by (simp add: alpha1_def qna_forum_def)
qed

section \<open>\<open>read-forum-threads\<close>\<close>

lemma read_threads_loop_run:
  assumes honours:
    "\<forall>l t opts ms. messages_fetch c l t opts = Inr ms \<longrightarrow> length ms \<le> opt_limit opts"
  shows "\<exists>calls. snd (read_threads_loop c forumChannel before ts result log) = log @ calls
      \<and> (\<forall>q \<in> set calls. \<exists>t. q = MessagesFetch t (FetchOptions 10 (before_option before)))
      \<and> (\<forall>res. fst (read_threads_loop c forumChannel before ts result log) = Inr res \<longrightarrow>
            (\<exists>new. res = result @ new \<and> map entry_threadId new = map cid ts
                \<and> (\<forall>e \<in> set new. length (entry_messages e) \<le> 10)))"
proof (induction ts arbitrary: result log)
  case Nil
  show ?case by simp
next
  case (Cons thread rest)
  let ?opts = "FetchOptions 10 (before_option before)"
  let ?q = "MessagesFetch (cid thread) ?opts"
  show ?case
  proof (cases "messages_fetch c log (cid thread) ?opts")
    case (Inl f)
    then have "read_threads_loop c forumChannel before (thread # rest) result log =
        (Inl (Rejected f), log @ [?q])"
      by (simp add: and_then_def await_call_def)
    then show ?thesis by simp
  next
    case (Inr ms)
    let ?entry = "\<lparr>entry_thread = cname thread, entry_threadId = cid thread,
                    entry_tags = threadTags forumChannel thread, entry_messages = ms\<rparr>"
    have step: "read_threads_loop c forumChannel before (thread # rest) result log =
        read_threads_loop c forumChannel before rest (result @ [?entry]) (log @ [?q])"
      using Inr by (simp add: and_then_def await_call_def)
    have ms: "length ms \<le> 10"
      using honours Inr by fastforce
    from Cons.IH [of "result @ [?entry]" "log @ [?q]"]
    obtain calls where calls:
      "snd (read_threads_loop c forumChannel before rest (result @ [?entry]) (log @ [?q]))
         = (log @ [?q]) @ calls"
      "\<forall>q \<in> set calls. \<exists>t. q = MessagesFetch t ?opts"
      "\<forall>res. fst (read_threads_loop c forumChannel before rest (result @ [?entry]) (log @ [?q]))
              = Inr res \<longrightarrow>
            (\<exists>new. res = (result @ [?entry]) @ new \<and> map entry_threadId new = map cid rest
                \<and> (\<forall>e \<in> set new. length (entry_messages e) \<le> 10))"
      by blast
    have "snd (read_threads_loop c forumChannel before (thread # rest) result log)
        = log @ (?q # calls)"
      using step calls(1) by simp
    moreover have "\<forall>q \<in> set (?q # calls). \<exists>t. q = MessagesFetch t ?opts"
      using calls(2) by simp
    moreover have "\<forall>res. fst (read_threads_loop c forumChannel before (thread # rest) result log)
              = Inr res \<longrightarrow>
            (\<exists>new. res = result @ new \<and> map entry_threadId new = map cid (thread # rest)
                \<and> (\<forall>e \<in> set new. length (entry_messages e) \<le> 10))"
    proof (intro allI impI)
      fix res
      assume "fst (read_threads_loop c forumChannel before (thread # rest) result log) = Inr res"
      with step calls(3) obtain new where new: "res = (result @ [?entry]) @ new"
        "map entry_threadId new = map cid rest"
        "\<forall>e \<in> set new. length (entry_messages e) \<le> 10"
        by auto
      have "res = result @ (?entry # new)"
        using new(1) by simp
      moreover have "map entry_threadId (?entry # new) = map cid (thread # rest)"
        using new(2) by simp
      moreover have "\<forall>e \<in> set (?entry # new). length (entry_messages e) \<le> 10"
        using new(3) ms by simp
      ultimately show "\<exists>new. res = result @ new \<and> map entry_threadId new = map cid (thread # rest)
                \<and> (\<forall>e \<in> set new. length (entry_messages e) \<le> 10)"
        by blast
    qed
    ultimately show ?thesis by blast
  qed
qed

text \<open>
  C10. In every \<open>read-forum-threads\<close> call the handler requests the active threads only: it
  adds no request for archived threads to the log, and every message request it adds has
  the limit 10, whatever the arguments. When the call succeeds, the entries are those of
  the first \<open>limit\<close> active threads of the resolved forum, one entry per thread, so \<open>limit\<close>
  bounds the number of threads; and with a client that returns no more messages than the
  limit of a request, every entry has at most 10 messages.
\<close>

theorem read_forum_threads_active_only_ten_messages:
  assumes honours:
    "\<forall>l t opts ms. messages_fetch c l t opts = Inr ms \<longrightarrow> length ms \<le> opt_limit opts"
  shows "(\<exists>calls. snd (read_forum_threads c server channelIdentifier limit before log) = log @ calls
            \<and> (\<forall>q \<in> set calls. \<not> is_archived_request q \<and>
                  (is_messages_request q \<longrightarrow>
                     (\<exists>t. q = MessagesFetch t (FetchOptions 10 (before_option before))))))
       \<and> (\<forall>res. fst (read_forum_threads c server channelIdentifier limit before log) = Inr res \<longrightarrow>
             length res \<le> limit
           \<and> (\<forall>e \<in> set res. length (entry_messages e) \<le> 10)
           \<and> (\<exists>g log1 forumChannel log2 threads.
                  findGuild c server log = (Inr g, log1)
                \<and> findForum c g channelIdentifier log1 = (Inr forumChannel, log2)
                \<and> threads_fetchActive c log2 (cid forumChannel) = Inr threads
                \<and> map entry_threadId res = map cid (take limit threads)))"
proof -
  let ?r = "read_forum_threads c server channelIdentifier limit before log"
  let ?good = "\<lambda>q. \<not> is_archived_request q \<and>
                  (is_messages_request q \<longrightarrow>
                     (\<exists>t. q = MessagesFetch t (FetchOptions 10 (before_option before))))"
  obtain rg log1 where fg: "findGuild c server log = (rg, log1)"
    by (cases "findGuild c server log")
  from findGuild_log [of c server log] fg
  obtain calls1 where c1: "log1 = log @ calls1" "\<forall>q \<in> set calls1. ?good q"
    by auto
  show ?thesis
  proof (cases rg)
    case (Inl e)
    then have "?r = (Inl e, log1)"
      using fg by (simp add: read_forum_threads_def and_then_def)
    then show ?thesis using c1 by auto
  next
    case g: (Inr g)
    obtain rf log2 where ff: "findForum c g channelIdentifier log1 = (rf, log2)"
      by (cases "findForum c g channelIdentifier log1")
    have log2: "log2 = log1 @ [ChannelsFetch (gid g) channelIdentifier]"
      using findForum_log [of c g channelIdentifier log1] ff by simp
    show ?thesis
    proof (cases rf)
      case (Inl e)
      then have "?r = (Inl e, log @ (calls1 @ [ChannelsFetch (gid g) channelIdentifier]))"
        using fg g ff log2 c1 by (simp add: read_forum_threads_def and_then_def)
      moreover have "\<forall>q \<in> set (calls1 @ [ChannelsFetch (gid g) channelIdentifier]). ?good q"
        using c1 by auto
      ultimately show ?thesis by (metis fst_conv snd_conv sum.distinct(1))
    next
      case f: (Inr forumChannel)
      let ?pre = "calls1 @ [ChannelsFetch (gid g) channelIdentifier, FetchActive (cid forumChannel)]"
      have pre: "\<forall>q \<in> set ?pre. ?good q"
        using c1 by auto
      show ?thesis
      proof (cases "threads_fetchActive c log2 (cid forumChannel)")
        case (Inl e)
        then have "?r = (Inl (Rejected e), log @ ?pre)"
          using fg g ff f log2 c1
          by (simp add: read_forum_threads_def and_then_def await_call_def)
        with pre show ?thesis by (metis fst_conv snd_conv sum.distinct(1))
      next
        case (Inr threads)
        let ?loop = "read_threads_loop c forumChannel before (take limit threads) [] (log @ ?pre)"
        have run: "?r = ?loop"
          using fg g ff f log2 c1 Inr
          by (simp add: read_forum_threads_def and_then_def await_call_def slice0_def)
        from read_threads_loop_run [where c = c and forumChannel = forumChannel and before = before
            and ts = "take limit threads" and result = "[]" and log = "log @ ?pre", OF honours]
        obtain calls where calls: "snd ?loop = (log @ ?pre) @ calls"
          "\<forall>q \<in> set calls. \<exists>t. q = MessagesFetch t (FetchOptions 10 (before_option before))"
          "\<forall>res. fst ?loop = Inr res \<longrightarrow>
            (\<exists>new. res = [] @ new \<and> map entry_threadId new = map cid (take limit threads)
                \<and> (\<forall>e \<in> set new. length (entry_messages e) \<le> 10))"
          by blast
        have "snd ?r = log @ (?pre @ calls)"
          using run calls(1) by simp
        moreover have "\<forall>q \<in> set (?pre @ calls). ?good q"
          using pre calls(2) by auto
        moreover have "\<forall>res. fst ?r = Inr res \<longrightarrow>
             length res \<le> limit
           \<and> (\<forall>e \<in> set res. length (entry_messages e) \<le> 10)
           \<and> (\<exists>g log1 forumChannel log2 threads.
                  findGuild c server log = (Inr g, log1)
                \<and> findForum c g channelIdentifier log1 = (Inr forumChannel, log2)
                \<and> threads_fetchActive c log2 (cid forumChannel) = Inr threads
                \<and> map entry_threadId res = map cid (take limit threads))"
        proof (intro allI impI)
          fix res
          assume "fst ?r = Inr res"
          with run calls(3) have ids: "map entry_threadId res = map cid (take limit threads)"
            and msgs: "\<forall>e \<in> set res. length (entry_messages e) \<le> 10"
            by auto
          have "length res = length (map cid (take limit threads))"
            using ids by (metis length_map)
          then have "length res \<le> limit"
            by simp
          moreover have "\<exists>g log1 forumChannel log2 threads.
                  findGuild c server log = (Inr g, log1)
                \<and> findForum c g channelIdentifier log1 = (Inr forumChannel, log2)
                \<and> threads_fetchActive c log2 (cid forumChannel) = Inr threads
                \<and> map entry_threadId res = map cid (take limit threads)"
            using fg g ff f Inr ids by blast
          ultimately show "length res \<le> limit
           \<and> (\<forall>e \<in> set res. length (entry_messages e) \<le> 10)
           \<and> (\<exists>g log1 forumChannel log2 threads.
                  findGuild c server log = (Inr g, log1)
                \<and> findForum c g channelIdentifier log1 = (Inr forumChannel, log2)
                \<and> threads_fetchActive c log2 (cid forumChannel) = Inr threads
                \<and> map entry_threadId res = map cid (take limit threads))"
            using msgs by blast
        qed
        ultimately show ?thesis by blast
      qed
    qed
  qed
qed

lemma toLowerCase_qna: "toLowerCase ''qna'' = ''qna''"
  by code_simp

text \<open>
  The forum \<open>qna\<close> has one active thread with twelve messages; a call with the limit 5
  returns that thread with its first ten messages.
\<close>

theorem read_forum_threads_active_only_ten_messages_witness:
  "fst (read_forum_threads forum_client None ''qna'' 5 None []) =
     Inr [\<lparr>entry_thread = ''Library'', entry_threadId = ''t1'', entry_tags = [],
           entry_messages = take 10 some_messages\<rparr>]
   \<and> length (take 10 some_messages) \<le> 10
   \<and> length some_messages = 12"
proof -
  let ?E = "\<lparr>entry_thread = ''Library'', entry_threadId = ''t1'', entry_tags = [],
           entry_messages = take 10 some_messages\<rparr>"
  have h: "\<forall>l t opts ms. messages_fetch forum_client l t opts = Inr ms \<longrightarrow>
      length ms \<le> opt_limit opts"
    by (simp add: forum_client_def offline_client_def)
  have ev: "fst (read_forum_threads forum_client None ''qna'' 5 None []) = Inr [?E]"
    by (simp add: read_forum_threads_def and_then_def await_call_def slice0_def
        forum_client_def offline_client_def findGuild_unspecified_def findForum_def
        forum_by_name_def forum_name_matches_def toLowerCase_qna alpha1_def qna_forum_def
        active_thread_def example_thread_def threadTags_def)
  have "\<forall>e \<in> set [?E]. length (entry_messages e) \<le> 10"
    using read_forum_threads_active_only_ten_messages [OF h, of None "''qna''" 5 None "[]"] ev
    by blast
  then have "length (take 10 some_messages) \<le> 10"
    by simp
  moreover have "length some_messages = 12"
    by (simp add: some_messages_def)
  ultimately show ?thesis
    using ev by simp
qed

section \<open>Collections\<close>

lemma ids_coll_set:
  "map cid (coll_set xs t) =
     (if cid t \<in> set (map cid xs) then map cid xs else map cid xs @ [cid t])"
  by (induction xs) auto

lemma length_coll_set: "length (coll_set xs t) \<le> Suc (length xs)"
  by (induction xs) auto

lemma ids_coll_concat:
  "set (map cid (coll_concat a b)) = set (map cid a) \<union> set (map cid b)"
  unfolding coll_concat_def
proof (induction b arbitrary: a)
  case Nil
  show ?case by simp
next
  case (Cons t b)
  have "set (map cid (coll_set a t)) = insert (cid t) (set (map cid a))"
    unfolding ids_coll_set by auto
  with Cons [of "coll_set a t"] show ?case by auto
qed

lemma distinct_coll_concat:
  "distinct (map cid a) \<Longrightarrow> distinct (map cid (coll_concat a b))"
  unfolding coll_concat_def
proof (induction b arbitrary: a)
  case Nil
  then show ?case by simp
next
  case (Cons t b)
  have "distinct (map cid (coll_set a t))"
    unfolding ids_coll_set using Cons.prems by auto
  with Cons.IH [of "coll_set a t"] show ?case by simp
qed

lemma length_coll_concat: "length (coll_concat a b) \<le> length a + length b"
  unfolding coll_concat_def
proof (induction b arbitrary: a)
  case Nil
  show ?case by simp
next
  case (Cons t b)
  have "length (foldl coll_set (coll_set a t) b) \<le> length (coll_set a t) + length b"
    by (rule Cons.IH)
  also have "\<dots> \<le> Suc (length a) + length b"
    using length_coll_set [of a t] by simp
  finally show ?case by simp
qed

section \<open>The pagination loop of \<open>search-threads\<close>\<close>

lemma archived_loop_done:
  assumes "\<not> (hasMore st \<and> fetchCount st < maxFetches)"
  shows "archived_loop c fid st log = (Inr st, log)"
  by (subst archived_loop.simps) (simp only: assms if_False)

lemma archived_loop_batch:
  assumes "hasMore st" "fetchCount st < maxFetches"
    and "threads_fetchArchived c log fid (Some (archivedOptions (before_cursor st))) = Inr batch"
    and "batch \<noteq> []"
  shows "archived_loop c fid st log =
     archived_loop c fid
       (st\<lparr>allThreads := coll_concat (allThreads st) batch,
           before_cursor := Some (last (map cid batch)),
           fetchCount := fetchCount st + 1\<rparr>)
       (log @ [FetchArchived fid (Some (archivedOptions (before_cursor st)))])"
  using assms by (subst archived_loop.simps) simp

lemma archived_loop_exhausted:
  assumes "hasMore st" "fetchCount st < maxFetches"
    and "threads_fetchArchived c log fid (Some (archivedOptions (before_cursor st))) = Inr []"
  shows "archived_loop c fid st log =
     (Inr (st\<lparr>hasMore := False\<rparr>),
      log @ [FetchArchived fid (Some (archivedOptions (before_cursor st)))])"
proof -
  have "archived_loop c fid st log =
      archived_loop c fid (st\<lparr>hasMore := False\<rparr>)
        (log @ [FetchArchived fid (Some (archivedOptions (before_cursor st)))])"
    using assms by (subst archived_loop.simps) simp
  then show ?thesis
    by (simp add: archived_loop_done)
qed

lemma archived_loop_to_the_cap:
  assumes src: "\<forall>l before. \<exists>b. threads_fetchArchived c l fid (Some (FetchOptions 100 before)) = Inr b
                  \<and> b \<noteq> [] \<and> length b \<le> 100"
  shows "hasMore st \<Longrightarrow> fetchCount st + n = maxFetches \<Longrightarrow>
     \<exists>st' calls. archived_loop c fid st log = (Inr st', log @ calls)
        \<and> length calls = n \<and> (\<forall>q \<in> set calls. is_archived_request q)
        \<and> hasMore st' \<and> fetchCount st' = maxFetches
        \<and> length (allThreads st') \<le> length (allThreads st) + 100 * n"
proof (induction n arbitrary: st log)
  case 0
  then have "archived_loop c fid st log = (Inr st, log)"
    by (simp add: archived_loop_done)
  with 0 show ?case by simp
next
  case (Suc n)
  let ?opts = "archivedOptions (before_cursor st)"
  let ?q = "FetchArchived fid (Some ?opts)"
  obtain before where opts: "?opts = FetchOptions 100 before"
    by (simp add: archivedOptions_def)
  from src obtain b where b: "threads_fetchArchived c log fid (Some ?opts) = Inr b"
    "b \<noteq> []" "length b \<le> 100"
    unfolding opts by blast
  let ?st1 = "st\<lparr>allThreads := coll_concat (allThreads st) b,
                  before_cursor := Some (last (map cid b)),
                  fetchCount := fetchCount st + 1\<rparr>"
  have step: "archived_loop c fid st log = archived_loop c fid ?st1 (log @ [?q])"
    using Suc.prems b by (intro archived_loop_batch) simp_all
  have "hasMore ?st1" "fetchCount ?st1 + n = maxFetches"
    using Suc.prems by simp_all
  from Suc.IH [OF this, of "log @ [?q]"]
  obtain st' calls where rest: "archived_loop c fid ?st1 (log @ [?q]) = (Inr st', (log @ [?q]) @ calls)"
    "length calls = n" "\<forall>q \<in> set calls. is_archived_request q"
    "hasMore st'" "fetchCount st' = maxFetches"
    "length (allThreads st') \<le> length (allThreads ?st1) + 100 * n"
    by blast
  have "length (allThreads ?st1) \<le> length (allThreads st) + 100"
    using length_coll_concat [of "allThreads st" b] b(3) by simp
  with rest(6) have len: "length (allThreads st') \<le> length (allThreads st) + 100 * Suc n"
    by simp
  have "archived_loop c fid st log = (Inr st', log @ (?q # calls))"
    using step rest(1) by simp
  moreover have "length (?q # calls) = Suc n"
    using rest(2) by simp
  moreover have "\<forall>q \<in> set (?q # calls). is_archived_request q"
    using rest(3) by simp
  ultimately show ?case
    using rest(4,5) len by blast
qed

text \<open>
  C3. Against a source of archived threads that answers every request with a batch that
  is not empty and has at most the hundred threads asked for, the pagination loop returns
  normally after exactly ten requests, all of them requests for archived threads, with
  \<open>fetchCount\<close> at the cap of ten, and it has added at most 1000 threads to the collection.
\<close>

theorem archived_loop_stops_at_cap:
  assumes "\<forall>l before. \<exists>b. threads_fetchArchived c l fid (Some (FetchOptions 100 before)) = Inr b
                  \<and> b \<noteq> [] \<and> length b \<le> 100"
  shows "\<exists>st calls.
       archived_loop c fid
         \<lparr>hasMore = True, before_cursor = None, fetchCount = 0, allThreads = init\<rparr> log
         = (Inr st, log @ calls)
     \<and> length calls = 10 \<and> (\<forall>q \<in> set calls. is_archived_request q)
     \<and> fetchCount st = 10
     \<and> length (allThreads st) \<le> length init + 1000"
proof -
  let ?st0 = "\<lparr>hasMore = True, before_cursor = None, fetchCount = 0, allThreads = init\<rparr>"
  have "hasMore ?st0" "fetchCount ?st0 + 10 = maxFetches"
    by (simp_all add: maxFetches_def)
  from archived_loop_to_the_cap [OF assms this, of log]
  obtain st' calls where r: "archived_loop c fid ?st0 log = (Inr st', log @ calls)"
    "length calls = 10" "\<forall>q \<in> set calls. is_archived_request q"
    "fetchCount st' = maxFetches"
    "length (allThreads st') \<le> length (allThreads ?st0) + 100 * 10"
    by blast
  show ?thesis
    using r by (intro exI [of _ st'] exI [of _ calls]) (simp add: maxFetches_def)
qed

theorem archived_loop_stops_at_cap_witness:
  "length (snd (archived_loop endless_client ''f1''
       \<lparr>hasMore = True, before_cursor = None, fetchCount = 0, allThreads = []\<rparr> [])) = 10
   \<and> (\<exists>st. fst (archived_loop endless_client ''f1''
       \<lparr>hasMore = True, before_cursor = None, fetchCount = 0, allThreads = []\<rparr> []) = Inr st
        \<and> fetchCount st = 10 \<and> length (allThreads st) \<le> 1000)"
proof -
  have h: "\<forall>l before. \<exists>b. threads_fetchArchived endless_client l ''f1''
                  (Some (FetchOptions 100 before)) = Inr b \<and> b \<noteq> [] \<and> length b \<le> 100"
    by (simp add: endless_client_def forum_client_def offline_client_def)
  from archived_loop_stops_at_cap [OF h, of "[]" "[]"]
  show ?thesis
    by auto
qed

text \<open>
  C4. When the source answers the first request, sent without a cursor, with a batch
  \<open>b1\<close>, the request with the id of the last thread of \<open>b1\<close> as cursor with \<open>b2\<close>, the one
  with the last id of \<open>b2\<close> with \<open>b3\<close>, and the one with the last id of \<open>b3\<close> with the
  empty batch, and the three batches are not empty (of a hundred threads each, or of any
  size), the loop makes exactly these four requests and returns normally with the three
  batches merged into the collection in order. The thread ids of the result are those of
  the initial collection and of the three batches, and no id occurs twice when none does
  in the initial collection.
\<close>

theorem archived_loop_three_batches:
  assumes "b1 \<noteq> []" and "b2 \<noteq> []" and "b3 \<noteq> []"
    and "cid (last b1) \<noteq> []" and "cid (last b2) \<noteq> []" and "cid (last b3) \<noteq> []"
    and "threads_fetchArchived c log fid (Some (FetchOptions 100 None)) = Inr b1"
    and "threads_fetchArchived c
           (log @ [FetchArchived fid (Some (FetchOptions 100 None))])
           fid (Some (FetchOptions 100 (Some (cid (last b1))))) = Inr b2"
    and "threads_fetchArchived c
           (log @ [FetchArchived fid (Some (FetchOptions 100 None)),
                   FetchArchived fid (Some (FetchOptions 100 (Some (cid (last b1)))))])
           fid (Some (FetchOptions 100 (Some (cid (last b2))))) = Inr b3"
    and "threads_fetchArchived c
           (log @ [FetchArchived fid (Some (FetchOptions 100 None)),
                   FetchArchived fid (Some (FetchOptions 100 (Some (cid (last b1))))),
                   FetchArchived fid (Some (FetchOptions 100 (Some (cid (last b2)))))])
           fid (Some (FetchOptions 100 (Some (cid (last b3))))) = Inr []"
  shows "archived_loop c fid
           \<lparr>hasMore = True, before_cursor = None, fetchCount = 0, allThreads = init\<rparr> log
         = (Inr \<lparr>hasMore = False, before_cursor = Some (cid (last b3)), fetchCount = 3,
                 allThreads = coll_concat (coll_concat (coll_concat init b1) b2) b3\<rparr>,
            log @ [FetchArchived fid (Some (FetchOptions 100 None)),
                   FetchArchived fid (Some (FetchOptions 100 (Some (cid (last b1))))),
                   FetchArchived fid (Some (FetchOptions 100 (Some (cid (last b2))))),
                   FetchArchived fid (Some (FetchOptions 100 (Some (cid (last b3)))))])
     \<and> set (map cid (coll_concat (coll_concat (coll_concat init b1) b2) b3))
         = set (map cid init) \<union> set (map cid b1) \<union> set (map cid b2) \<union> set (map cid b3)
     \<and> (distinct (map cid init) \<longrightarrow>
          distinct (map cid (coll_concat (coll_concat (coll_concat init b1) b2) b3)))"
proof -
  let ?q1 = "FetchArchived fid (Some (FetchOptions 100 None))"
  let ?q2 = "FetchArchived fid (Some (FetchOptions 100 (Some (cid (last b1)))))"
  let ?q3 = "FetchArchived fid (Some (FetchOptions 100 (Some (cid (last b2)))))"
  let ?q4 = "FetchArchived fid (Some (FetchOptions 100 (Some (cid (last b3)))))"
  let ?st0 = "\<lparr>hasMore = True, before_cursor = None, fetchCount = 0, allThreads = init\<rparr>"
  let ?st1 = "\<lparr>hasMore = True, before_cursor = Some (cid (last b1)), fetchCount = 1,
               allThreads = coll_concat init b1\<rparr>"
  let ?st2 = "\<lparr>hasMore = True, before_cursor = Some (cid (last b2)), fetchCount = 2,
               allThreads = coll_concat (coll_concat init b1) b2\<rparr>"
  let ?st3 = "\<lparr>hasMore = True, before_cursor = Some (cid (last b3)), fetchCount = 3,
               allThreads = coll_concat (coll_concat (coll_concat init b1) b2) b3\<rparr>"
  have s1: "archived_loop c fid ?st0 log = archived_loop c fid ?st1 (log @ [?q1])"
    using archived_loop_batch [of ?st0 c log fid b1] assms(1,7)
    by (simp add: archivedOptions_def maxFetches_def last_map numeral_2_eq_2 numeral_3_eq_3)
  have s2: "archived_loop c fid ?st1 (log @ [?q1]) = archived_loop c fid ?st2 (log @ [?q1, ?q2])"
    using archived_loop_batch [of ?st1 c "log @ [?q1]" fid b2] assms(2,4,8)
    by (simp add: archivedOptions_def maxFetches_def last_map numeral_2_eq_2 numeral_3_eq_3)
  have s3: "archived_loop c fid ?st2 (log @ [?q1, ?q2]) =
      archived_loop c fid ?st3 (log @ [?q1, ?q2, ?q3])"
    using archived_loop_batch [of ?st2 c "log @ [?q1, ?q2]" fid b3] assms(3,5,9)
    by (simp add: archivedOptions_def maxFetches_def last_map numeral_2_eq_2 numeral_3_eq_3)
  have s4: "archived_loop c fid ?st3 (log @ [?q1, ?q2, ?q3]) =
      (Inr (?st3\<lparr>hasMore := False\<rparr>), log @ [?q1, ?q2, ?q3, ?q4])"
    using archived_loop_exhausted [of ?st3 c "log @ [?q1, ?q2, ?q3]" fid] assms(6,10)
    by (simp add: archivedOptions_def maxFetches_def numeral_2_eq_2 numeral_3_eq_3)
  have run: "archived_loop c fid ?st0 log =
      (Inr \<lparr>hasMore = False, before_cursor = Some (cid (last b3)), fetchCount = 3,
             allThreads = coll_concat (coll_concat (coll_concat init b1) b2) b3\<rparr>,
       log @ [?q1, ?q2, ?q3, ?q4])"
    using s1 s2 s3 s4 by simp
  have ids: "set (map cid (coll_concat (coll_concat (coll_concat init b1) b2) b3))
         = set (map cid init) \<union> set (map cid b1) \<union> set (map cid b2) \<union> set (map cid b3)"
    by (simp only: ids_coll_concat)
  have "distinct (map cid init) \<longrightarrow>
          distinct (map cid (coll_concat (coll_concat (coll_concat init b1) b2) b3))"
    by (simp add: distinct_coll_concat)
  with run ids show ?thesis by blast
qed

lemma hundred_facts:
  "hundred k \<noteq> []" "cid (last (hundred k)) \<noteq> []" "length (hundred k) = 100"
  by (simp_all add: hundred_def last_map example_thread_def)

text \<open>
  The source that hands out three batches of a hundred threads and then the empty batch:
  four requests, the last three with the cursor of the batch before.
\<close>

theorem archived_loop_three_batches_witness:
  "map length [hundred 0, hundred 1, hundred 2, []] = [100, 100, 100, 0]
   \<and> archived_loop counting_client ''f1''
       \<lparr>hasMore = True, before_cursor = None, fetchCount = 0, allThreads = []\<rparr> []
     = (Inr \<lparr>hasMore = False, before_cursor = Some (cid (last (hundred 2))), fetchCount = 3,
             allThreads = coll_concat (coll_concat (coll_concat [] (hundred 0)) (hundred 1))
                            (hundred 2)\<rparr>,
        [FetchArchived ''f1'' (Some (FetchOptions 100 None)),
         FetchArchived ''f1'' (Some (FetchOptions 100 (Some (cid (last (hundred 0)))))),
         FetchArchived ''f1'' (Some (FetchOptions 100 (Some (cid (last (hundred 1)))))),
         FetchArchived ''f1'' (Some (FetchOptions 100 (Some (cid (last (hundred 2))))))])"
proof -
  have h: "hundred 0 \<noteq> []" "hundred 1 \<noteq> []" "hundred 2 \<noteq> []"
    "cid (last (hundred 0)) \<noteq> []" "cid (last (hundred 1)) \<noteq> []" "cid (last (hundred 2)) \<noteq> []"
    "threads_fetchArchived counting_client [] ''f1'' (Some (FetchOptions 100 None))
       = Inr (hundred 0)"
    "threads_fetchArchived counting_client
       ([] @ [FetchArchived ''f1'' (Some (FetchOptions 100 None))])
       ''f1'' (Some (FetchOptions 100 (Some (cid (last (hundred 0)))))) = Inr (hundred 1)"
    "threads_fetchArchived counting_client
       ([] @ [FetchArchived ''f1'' (Some (FetchOptions 100 None)),
              FetchArchived ''f1'' (Some (FetchOptions 100 (Some (cid (last (hundred 0))))))])
       ''f1'' (Some (FetchOptions 100 (Some (cid (last (hundred 1)))))) = Inr (hundred 2)"
    "threads_fetchArchived counting_client
       ([] @ [FetchArchived ''f1'' (Some (FetchOptions 100 None)),
              FetchArchived ''f1'' (Some (FetchOptions 100 (Some (cid (last (hundred 0)))))),
              FetchArchived ''f1'' (Some (FetchOptions 100 (Some (cid (last (hundred 1))))))])
       ''f1'' (Some (FetchOptions 100 (Some (cid (last (hundred 2)))))) = Inr []"
    by (simp_all add: hundred_facts counting_client_def forum_client_def offline_client_def
        numeral_2_eq_2)
  show ?thesis
    using archived_loop_three_batches [OF h, of "[]"]
    by (simp add: hundred_facts)
qed

section \<open>What the forum handlers return\<close>

lemma search_threads_run:
  assumes "findGuild c server log = (Inr g, log1)"
    and "findForum c g channelIdentifier log1 = (Inr forumChannel, log2)"
    and "collect_threads c forumChannel includeArchived log2 = (Inr threads, log3)"
  shows "search_threads c server channelIdentifier query limit includeArchived exactMatch log =
     (Inr \<lparr>search_forumChannel = cname forumChannel, search_server = gname g,
            search_query = query, search_exactMatch = exactMatch,
            totalFound = length (threadList limit (filteredThreads query exactMatch threads)),
            totalSearched = length (filteredThreads query exactMatch threads),
            search_includeArchived = includeArchived,
            search_threads_out =
              map (format_thread forumChannel)
                (threadList limit (filteredThreads query exactMatch threads))\<rparr>,
      log3)"
  using assms by (simp add: search_threads_def and_then_def Let_def)

lemma list_threads_run_active:
  assumes "findGuild c server log = (Inr g, log1)"
    and "findForum c g channelIdentifier log1 = (Inr forumChannel, log2)"
    and "threads_fetchActive c log2 (cid forumChannel) = Inr activeThreads"
  shows "list_threads c server channelIdentifier limit False log =
     (Inr \<lparr>list_forumChannel = cname forumChannel, list_server = gname g,
            list_totalThreads = length (threadList limit (coll_concat [] activeThreads)),
            list_includeArchived = False,
            list_threads_out =
              map (format_thread forumChannel)
                (threadList limit (coll_concat [] activeThreads))\<rparr>,
      log2 @ [FetchActive (cid forumChannel)])"
  using assms by (simp add: list_threads_def and_then_def await_call_def Let_def)

lemma list_threads_run_archived:
  assumes "findGuild c server log = (Inr g, log1)"
    and "findForum c g channelIdentifier log1 = (Inr forumChannel, log2)"
    and "threads_fetchActive c log2 (cid forumChannel) = Inr activeThreads"
    and "threads_fetchArchived c (log2 @ [FetchActive (cid forumChannel)]) (cid forumChannel) None
           = Inr archivedThreads"
  shows "list_threads c server channelIdentifier limit True log =
     (Inr \<lparr>list_forumChannel = cname forumChannel, list_server = gname g,
            list_totalThreads =
              length (threadList limit
                (coll_concat (coll_concat [] activeThreads) archivedThreads)),
            list_includeArchived = True,
            list_threads_out =
              map (format_thread forumChannel)
                (threadList limit
                   (coll_concat (coll_concat [] activeThreads) archivedThreads))\<rparr>,
      log2 @ [FetchActive (cid forumChannel), FetchArchived (cid forumChannel) None])"
  using assms by (simp add: list_threads_def and_then_def await_call_def Let_def)


lemma example_forum_resolves:
  assumes "guilds_cache c [] = [alpha1]"
    and "channels_fetch c [] ''1'' ''qna'' = Inl NotFoundFailure"
    and "channels_cache c [ChannelsFetch ''1'' ''qna''] ''1'' = [qna_forum]"
  shows "findGuild c None [] = (Inr alpha1, [])"
    and "findForum c alpha1 ''qna'' [] = (Inr qna_forum, [ChannelsFetch ''1'' ''qna''])"
  using assms
  by (simp_all add: findGuild_unspecified_def findForum_def forum_by_name_def
      forum_name_matches_def toLowerCase_qna alpha1_def qna_forum_def)

section \<open>\<open>list-threads\<close>\<close>

text \<open>
  C1, as the code has it. With \<open>includeArchived\<close> set, and the guild, the forum and the
  active threads fetched, \<open>list-threads\<close> asks for the archived threads once, with no
  options (no cursor and no batch size), and merges the answer into the active threads by
  thread id: the listed threads are the first \<open>limit\<close> of the merged collection, newest
  first, and no thread id occurs twice in the merged collection.
\<close>

theorem list_threads_single_archived_request:
  assumes "findGuild c server log = (Inr g, log1)"
    and "findForum c g channelIdentifier log1 = (Inr forumChannel, log2)"
    and "threads_fetchActive c log2 (cid forumChannel) = Inr activeThreads"
    and "threads_fetchArchived c (log2 @ [FetchActive (cid forumChannel)]) (cid forumChannel) None
           = Inr archivedThreads"
  shows "list_threads c server channelIdentifier limit True log =
           (Inr \<lparr>list_forumChannel = cname forumChannel, list_server = gname g,
                  list_totalThreads =
                    length (threadList limit
                      (coll_concat (coll_concat [] activeThreads) archivedThreads)),
                  list_includeArchived = True,
                  list_threads_out =
                    map (format_thread forumChannel)
                      (threadList limit
                         (coll_concat (coll_concat [] activeThreads) archivedThreads))\<rparr>,
            log2 @ [FetchActive (cid forumChannel), FetchArchived (cid forumChannel) None])
       \<and> distinct (map cid (coll_concat (coll_concat [] activeThreads) archivedThreads))
       \<and> set (map cid (coll_concat (coll_concat [] activeThreads) archivedThreads))
           = set (map cid activeThreads) \<union> set (map cid archivedThreads)"
proof -
  have "list_threads c server channelIdentifier limit True log =
           (Inr \<lparr>list_forumChannel = cname forumChannel, list_server = gname g,
                  list_totalThreads =
                    length (threadList limit
                      (coll_concat (coll_concat [] activeThreads) archivedThreads)),
                  list_includeArchived = True,
                  list_threads_out =
                    map (format_thread forumChannel)
                      (threadList limit
                         (coll_concat (coll_concat [] activeThreads) archivedThreads))\<rparr>,
            log2 @ [FetchActive (cid forumChannel), FetchArchived (cid forumChannel) None])"
    using assms by (simp add: list_threads_def and_then_def await_call_def Let_def)
  moreover have "distinct (map cid (coll_concat (coll_concat [] activeThreads) archivedThreads))"
    by (intro distinct_coll_concat) simp
  moreover have "set (map cid (coll_concat (coll_concat [] activeThreads) archivedThreads))
           = set (map cid activeThreads) \<union> set (map cid archivedThreads)"
    unfolding ids_coll_concat by simp
  ultimately show ?thesis by blast
qed

lemma forum_client_resolves:
  "findGuild forum_client None [] = (Inr alpha1, [])"
  "findForum forum_client alpha1 ''qna'' [] = (Inr qna_forum, [ChannelsFetch ''1'' ''qna''])"
  by (simp_all add: forum_client_def offline_client_def findGuild_unspecified_def findForum_def
      forum_by_name_def forum_name_matches_def toLowerCase_qna alpha1_def qna_forum_def)

lemma forum_client_threads:
  "threads_fetchActive forum_client l f = Inr [active_thread]"
  "threads_fetchArchived forum_client l f None = Inr [old_thread8]"
  by (simp_all add: forum_client_def offline_client_def)

lemma merged_example:
  "coll_concat (coll_concat [] [active_thread]) [old_thread8] = [active_thread, old_thread8]"
  by (simp add: coll_concat_def active_thread_def old_thread8_def example_thread_def)

lemma threadList_example:
  "threadList 50 [active_thread, old_thread8] = [active_thread, old_thread8]"
  by (simp add: threadList_def slice0_def newest_first_def active_thread_def old_thread8_def
      example_thread_def)

theorem list_threads_single_archived_request_witness:
  "list_threads forum_client None ''qna'' 50 True [] =
     (Inr \<lparr>list_forumChannel = ''qna'', list_server = ''Alpha'', list_totalThreads = 2,
            list_includeArchived = True,
            list_threads_out =
              [format_thread qna_forum active_thread, format_thread qna_forum old_thread8]\<rparr>,
      [ChannelsFetch ''1'' ''qna'', FetchActive ''f1'', FetchArchived ''f1'' None])"
proof -
  have h: "threads_fetchActive forum_client [ChannelsFetch ''1'' ''qna''] (cid qna_forum)
      = Inr [active_thread]"
    "threads_fetchArchived forum_client
       ([ChannelsFetch ''1'' ''qna''] @ [FetchActive (cid qna_forum)]) (cid qna_forum) None
      = Inr [old_thread8]"
    by (simp_all add: forum_client_def offline_client_def)
  have names: "cname qna_forum = ''qna''" "gname alpha1 = ''Alpha''" "cid qna_forum = ''f1''"
    by (simp_all add: qna_forum_def alpha1_def)
  show ?thesis
    using list_threads_single_archived_request [OF forum_client_resolves h, of 50]
    by (simp add: merged_example threadList_example names)
qed

text \<open>
  C1 as stated does not hold. The forum below has two archived threads, which the source
  hands out one per request. \<open>list-threads\<close> with \<open>includeArchived\<close> sends one request
  without options and lists the active thread and the first archived one; a
  \<open>search-threads\<close> call on the same forum sends three requests, the later ones with a
  cursor, and finds both archived threads.
\<close>

theorem list_threads_no_pagination_counterexample:
  "list_threads forum_client None ''qna'' 50 True [] =
     (Inr \<lparr>list_forumChannel = ''qna'', list_server = ''Alpha'', list_totalThreads = 2,
            list_includeArchived = True,
            list_threads_out =
              [format_thread qna_forum active_thread, format_thread qna_forum old_thread8]\<rparr>,
      [ChannelsFetch ''1'' ''qna'', FetchActive ''f1'', FetchArchived ''f1'' None])
   \<and> search_threads forum_client None ''qna'' ''question'' 50 True False [] =
     (Inr \<lparr>search_forumChannel = ''qna'', search_server = ''Alpha'',
            search_query = ''question'', search_exactMatch = False,
            totalFound = 2, totalSearched = 2, search_includeArchived = True,
            search_threads_out =
              [format_thread qna_forum old_thread8, format_thread qna_forum old_thread7]\<rparr>,
      [ChannelsFetch ''1'' ''qna'', FetchActive ''f1'',
       FetchArchived ''f1'' (Some (FetchOptions 100 None)),
       FetchArchived ''f1'' (Some (FetchOptions 100 (Some ''t8''))),
       FetchArchived ''f1'' (Some (FetchOptions 100 (Some ''t7'')))])"
proof -
  have names: "cname qna_forum = ''qna''" "gname alpha1 = ''Alpha''" "cid qna_forum = ''f1''"
    by (simp_all add: qna_forum_def alpha1_def)
  have listed: "list_threads forum_client None ''qna'' 50 True [] =
     (Inr \<lparr>list_forumChannel = ''qna'', list_server = ''Alpha'', list_totalThreads = 2,
            list_includeArchived = True,
            list_threads_out =
              [format_thread qna_forum active_thread, format_thread qna_forum old_thread8]\<rparr>,
      [ChannelsFetch ''1'' ''qna'', FetchActive ''f1'', FetchArchived ''f1'' None])"
    by (simp del: findGuild.simps
        add: list_threads_def and_then_def await_call_def forum_client_resolves
          forum_client_threads names merged_example threadList_example)
  let ?l1 = "[ChannelsFetch ''1'' ''qna'', FetchActive ''f1'']"
  let ?q1 = "FetchArchived ''f1'' (Some (FetchOptions 100 None))"
  let ?q2 = "FetchArchived ''f1'' (Some (FetchOptions 100 (Some ''t8'')))"
  let ?q3 = "FetchArchived ''f1'' (Some (FetchOptions 100 (Some ''t7'')))"
  have ids: "cid old_thread8 = ''t8''" "cid old_thread7 = ''t7''"
    by (simp_all add: old_thread8_def old_thread7_def example_thread_def)
  have r1: "threads_fetchArchived forum_client ?l1 ''f1'' (Some (FetchOptions 100 None))
      = Inr [old_thread8]"
    and r2: "threads_fetchArchived forum_client (?l1 @ [?q1]) ''f1''
        (Some (FetchOptions 100 (Some ''t8''))) = Inr [old_thread7]"
    and r3: "threads_fetchArchived forum_client (?l1 @ [?q1, ?q2]) ''f1''
        (Some (FetchOptions 100 (Some ''t7''))) = Inr []"
    by (simp_all add: forum_client_def offline_client_def)
  have s1: "archived_loop forum_client ''f1''
      \<lparr>hasMore = True, before_cursor = None, fetchCount = 0, allThreads = [active_thread]\<rparr> ?l1
    = archived_loop forum_client ''f1''
      \<lparr>hasMore = True, before_cursor = Some ''t8'', fetchCount = 1,
        allThreads = [active_thread, old_thread8]\<rparr> (?l1 @ [?q1])"
    using archived_loop_batch [of "\<lparr>hasMore = True, before_cursor = None, fetchCount = 0,
        allThreads = [active_thread]\<rparr>" forum_client ?l1 "''f1''" "[old_thread8]"] r1
    by (simp add: archivedOptions_def maxFetches_def ids coll_concat_def active_thread_def
        old_thread8_def example_thread_def)
  have s2: "archived_loop forum_client ''f1''
      \<lparr>hasMore = True, before_cursor = Some ''t8'', fetchCount = 1,
        allThreads = [active_thread, old_thread8]\<rparr> (?l1 @ [?q1])
    = archived_loop forum_client ''f1''
      \<lparr>hasMore = True, before_cursor = Some ''t7'', fetchCount = 2,
        allThreads = [active_thread, old_thread8, old_thread7]\<rparr> (?l1 @ [?q1, ?q2])"
    using archived_loop_batch [of "\<lparr>hasMore = True, before_cursor = Some ''t8'', fetchCount = 1,
        allThreads = [active_thread, old_thread8]\<rparr>" forum_client "?l1 @ [?q1]" "''f1''"
        "[old_thread7]"] r2
    by (simp add: archivedOptions_def maxFetches_def ids coll_concat_def active_thread_def
        old_thread8_def old_thread7_def example_thread_def numeral_2_eq_2)
  have s3: "archived_loop forum_client ''f1''
      \<lparr>hasMore = True, before_cursor = Some ''t7'', fetchCount = 2,
        allThreads = [active_thread, old_thread8, old_thread7]\<rparr> (?l1 @ [?q1, ?q2])
    = (Inr \<lparr>hasMore = False, before_cursor = Some ''t7'', fetchCount = 2,
        allThreads = [active_thread, old_thread8, old_thread7]\<rparr>, ?l1 @ [?q1, ?q2, ?q3])"
    using archived_loop_exhausted [of "\<lparr>hasMore = True, before_cursor = Some ''t7'',
        fetchCount = 2, allThreads = [active_thread, old_thread8, old_thread7]\<rparr>"
        forum_client "?l1 @ [?q1, ?q2]" "''f1''"] r3
    by (simp add: archivedOptions_def maxFetches_def)
  have act: "threads_fetchActive forum_client [ChannelsFetch ''1'' ''qna''] ''f1''
      = Inr [active_thread]"
    by (simp add: forum_client_def offline_client_def)
  have coll: "collect_threads forum_client qna_forum True [ChannelsFetch ''1'' ''qna''] =
     (Inr [active_thread, old_thread8, old_thread7], ?l1 @ [?q1, ?q2, ?q3])"
    using s1 s2 s3 act
    by (simp add: collect_threads_def and_then_def await_call_def names coll_concat_def)
  have "map cid (filteredThreads ''question'' False [active_thread, old_thread8, old_thread7])
      = [''t8'', ''t7'']"
    by code_simp
  then have kept: "filteredThreads ''question'' False [active_thread, old_thread8, old_thread7]
      = [old_thread8, old_thread7]"
    by (simp add: filteredThreads_def active_thread_def old_thread8_def old_thread7_def
        example_thread_def split: if_splits)
  have sorted: "threadList 50 [old_thread8, old_thread7] = [old_thread8, old_thread7]"
    by (simp add: threadList_def slice0_def newest_first_def old_thread8_def old_thread7_def
        example_thread_def)
  have "search_threads forum_client None ''qna'' ''question'' 50 True False [] =
     (Inr \<lparr>search_forumChannel = ''qna'', search_server = ''Alpha'',
            search_query = ''question'', search_exactMatch = False,
            totalFound = 2, totalSearched = 2, search_includeArchived = True,
            search_threads_out =
              [format_thread qna_forum old_thread8, format_thread qna_forum old_thread7]\<rparr>,
      ?l1 @ [?q1, ?q2, ?q3])"
    using search_threads_run [OF forum_client_resolves coll, of "''question''" 50 False]
    by (simp add: kept sorted names)
  with listed show ?thesis by simp
qed

section \<open>The filter of \<open>search-threads\<close>\<close>





section \<open>The order and the limit of the listed threads\<close>

text \<open>
  C8. With the guild and the forum resolved, \<open>search-threads\<close> on the threads it has
  collected, \<open>list-threads\<close> on the active threads, and \<open>list-threads\<close> with
  \<open>includeArchived\<close> on the active threads merged with the archived ones, each return the
  first \<open>limit\<close> threads of an ordering of the threads that survive (the filtered ones for
  the search, the merged collection for the list) that is newest first and stable:
  descending in \<open>createdTimestamp\<close>, with the threads of any one timestamp in their input
  order.
\<close>

theorem listed_threads_newest_first_then_limit:
  assumes "findGuild c server log = (Inr g, log1)"
    and "findForum c g channelIdentifier log1 = (Inr forumChannel, log2)"
  shows "(\<forall>threads log3.
            collect_threads c forumChannel includeArchived log2 = (Inr threads, log3) \<longrightarrow>
            (\<exists>r ordered.
               search_threads c server channelIdentifier query limit includeArchived exactMatch log
                 = (Inr r, log3)
             \<and> newest_first_stable (filteredThreads query exactMatch threads) ordered
             \<and> search_threads_out r = map (format_thread forumChannel) (take limit ordered)))
       \<and> (\<forall>activeThreads.
            threads_fetchActive c log2 (cid forumChannel) = Inr activeThreads \<longrightarrow>
            (\<exists>r ordered.
               fst (list_threads c server channelIdentifier limit False log) = Inr r
             \<and> newest_first_stable (coll_concat [] activeThreads) ordered
             \<and> list_threads_out r = map (format_thread forumChannel) (take limit ordered)))
       \<and> (\<forall>activeThreads archivedThreads.
            threads_fetchActive c log2 (cid forumChannel) = Inr activeThreads
            \<and> threads_fetchArchived c (log2 @ [FetchActive (cid forumChannel)])
                (cid forumChannel) None = Inr archivedThreads \<longrightarrow>
            (\<exists>r ordered.
               fst (list_threads c server channelIdentifier limit True log) = Inr r
             \<and> newest_first_stable
                 (coll_concat (coll_concat [] activeThreads) archivedThreads) ordered
             \<and> list_threads_out r = map (format_thread forumChannel) (take limit ordered)))"
proof (intro conjI allI impI)
  fix threads log3
  assume "collect_threads c forumChannel includeArchived log2 = (Inr threads, log3)"
  from search_threads_run [OF assms this, of query limit exactMatch]
  show "\<exists>r ordered.
               search_threads c server channelIdentifier query limit includeArchived exactMatch log
                 = (Inr r, log3)
             \<and> newest_first_stable (filteredThreads query exactMatch threads) ordered
             \<and> search_threads_out r = map (format_thread forumChannel) (take limit ordered)"
    by (intro exI [of _ "array_sort newest_first (filteredThreads query exactMatch threads)"]
          exI [of _ "\<lparr>search_forumChannel = cname forumChannel, search_server = gname g,
            search_query = query, search_exactMatch = exactMatch,
            totalFound = length (threadList limit (filteredThreads query exactMatch threads)),
            totalSearched = length (filteredThreads query exactMatch threads),
            search_includeArchived = includeArchived,
            search_threads_out =
              map (format_thread forumChannel)
                (threadList limit (filteredThreads query exactMatch threads))\<rparr>"])
       (simp add: array_sort_newest_first_stable threadList_def slice0_def)
next
  fix activeThreads
  assume "threads_fetchActive c log2 (cid forumChannel) = Inr activeThreads"
  from list_threads_run_active [OF assms this, of limit]
  show "\<exists>r ordered.
               fst (list_threads c server channelIdentifier limit False log) = Inr r
             \<and> newest_first_stable (coll_concat [] activeThreads) ordered
             \<and> list_threads_out r = map (format_thread forumChannel) (take limit ordered)"
    by (intro exI [of _ "array_sort newest_first (coll_concat [] activeThreads)"]
          exI [of _ "\<lparr>list_forumChannel = cname forumChannel, list_server = gname g,
            list_totalThreads = length (threadList limit (coll_concat [] activeThreads)),
            list_includeArchived = False,
            list_threads_out =
              map (format_thread forumChannel)
                (threadList limit (coll_concat [] activeThreads))\<rparr>"])
       (simp add: array_sort_newest_first_stable threadList_def slice0_def)
next
  fix activeThreads archivedThreads
  assume "threads_fetchActive c log2 (cid forumChannel) = Inr activeThreads
            \<and> threads_fetchArchived c (log2 @ [FetchActive (cid forumChannel)])
                (cid forumChannel) None = Inr archivedThreads"
  then have a: "threads_fetchActive c log2 (cid forumChannel) = Inr activeThreads"
    and b: "threads_fetchArchived c (log2 @ [FetchActive (cid forumChannel)])
                (cid forumChannel) None = Inr archivedThreads"
    by simp_all
  from list_threads_run_archived [OF assms a b, of limit]
  show "\<exists>r ordered.
               fst (list_threads c server channelIdentifier limit True log) = Inr r
             \<and> newest_first_stable
                 (coll_concat (coll_concat [] activeThreads) archivedThreads) ordered
             \<and> list_threads_out r = map (format_thread forumChannel) (take limit ordered)"
    by (intro exI [of _ "array_sort newest_first
              (coll_concat (coll_concat [] activeThreads) archivedThreads)"]
          exI [of _ "\<lparr>list_forumChannel = cname forumChannel, list_server = gname g,
            list_totalThreads =
              length (threadList limit
                (coll_concat (coll_concat [] activeThreads) archivedThreads)),
            list_includeArchived = True,
            list_threads_out =
              map (format_thread forumChannel)
                (threadList limit
                   (coll_concat (coll_concat [] activeThreads) archivedThreads))\<rparr>"])
       (simp add: array_sort_newest_first_stable threadList_def slice0_def)
qed

lemma stamps_client_run:
  "findGuild stamps_client None [] = (Inr alpha1, [])"
  "findForum stamps_client alpha1 ''qna'' [] = (Inr qna_forum, [ChannelsFetch ''1'' ''qna''])"
  "threads_fetchActive stamps_client [ChannelsFetch ''1'' ''qna''] (cid qna_forum)
     = Inr stamp_threads"
proof -
  show "findGuild stamps_client None [] = (Inr alpha1, [])"
    and "findForum stamps_client alpha1 ''qna'' [] = (Inr qna_forum, [ChannelsFetch ''1'' ''qna''])"
    by (rule example_forum_resolves;
        simp add: stamps_client_def forum_client_def offline_client_def)+
  show "threads_fetchActive stamps_client [ChannelsFetch ''1'' ''qna''] (cid qna_forum)
     = Inr stamp_threads"
    by (simp add: stamps_client_def forum_client_def offline_client_def)
qed

lemma shuffled_client_run:
  "findGuild shuffled_client None [] = (Inr alpha1, [])"
  "findForum shuffled_client alpha1 ''qna'' [] = (Inr qna_forum, [ChannelsFetch ''1'' ''qna''])"
  "threads_fetchActive shuffled_client [ChannelsFetch ''1'' ''qna''] (cid qna_forum)
     = Inr shuffled_threads"
proof -
  show "findGuild shuffled_client None [] = (Inr alpha1, [])"
    and "findForum shuffled_client alpha1 ''qna'' [] = (Inr qna_forum, [ChannelsFetch ''1'' ''qna''])"
    by (rule example_forum_resolves;
        simp add: shuffled_client_def forum_client_def offline_client_def)+
  show "threads_fetchActive shuffled_client [ChannelsFetch ''1'' ''qna''] (cid qna_forum)
     = Inr shuffled_threads"
    by (simp add: shuffled_client_def forum_client_def offline_client_def)
qed

lemma stamp_examples:
  "coll_concat [] stamp_threads = stamp_threads"
  "coll_concat [] shuffled_threads = shuffled_threads"
  "threadList 4 stamp_threads = stamp_threads"
  "threadList 3 shuffled_threads =
     [example_thread ''a'' ''A'' 5, example_thread ''c'' ''C'' 3, example_thread ''b'' ''B'' 3]"
  "filteredThreads [] False shuffled_threads = shuffled_threads"
  by (simp_all add: coll_concat_def threadList_def slice0_def newest_first_def
      filteredThreads_def thread_matches_def toLowerCase_def stamp_threads_def
      shuffled_threads_def example_thread_def)

text \<open>
  The threads of the times 5, 3, 3, 1 are listed in this order, the two of time 3 as they
  came. When they come as \<open>c\<close>, \<open>d\<close>, \<open>a\<close>, \<open>b\<close> (times 3, 1, 5, 3) and the limit is 3, the
  list and the search with the empty query both return \<open>a\<close>, \<open>c\<close>, \<open>b\<close>.
\<close>

theorem listed_threads_newest_first_then_limit_witness:
  "fst (list_threads stamps_client None ''qna'' 4 False []) =
     Inr \<lparr>list_forumChannel = ''qna'', list_server = ''Alpha'', list_totalThreads = 4,
          list_includeArchived = False,
          list_threads_out = map (format_thread qna_forum) stamp_threads\<rparr>
   \<and> fst (list_threads shuffled_client None ''qna'' 3 False []) =
     Inr \<lparr>list_forumChannel = ''qna'', list_server = ''Alpha'', list_totalThreads = 3,
          list_includeArchived = False,
          list_threads_out =
            map (format_thread qna_forum)
              [example_thread ''a'' ''A'' 5, example_thread ''c'' ''C'' 3,
               example_thread ''b'' ''B'' 3]\<rparr>
   \<and> fst (search_threads shuffled_client None ''qna'' [] 3 False False []) =
     Inr \<lparr>search_forumChannel = ''qna'', search_server = ''Alpha'', search_query = [],
          search_exactMatch = False, totalFound = 3, totalSearched = 4,
          search_includeArchived = False,
          search_threads_out =
            map (format_thread qna_forum)
              [example_thread ''a'' ''A'' 5, example_thread ''c'' ''C'' 3,
               example_thread ''b'' ''B'' 3]\<rparr>
   \<and> (\<exists>ordered. newest_first_stable stamp_threads ordered
         \<and> map (format_thread qna_forum) stamp_threads
             = map (format_thread qna_forum) (take 4 ordered))"
proof -
  have names: "cname qna_forum = ''qna''" "gname alpha1 = ''Alpha''"
    by (simp_all add: qna_forum_def alpha1_def)
  have lens: "length stamp_threads = 4" "length shuffled_threads = 4"
    by (simp_all add: stamp_threads_def shuffled_threads_def)
  have ev1: "fst (list_threads stamps_client None ''qna'' 4 False []) =
     Inr \<lparr>list_forumChannel = ''qna'', list_server = ''Alpha'', list_totalThreads = 4,
          list_includeArchived = False,
          list_threads_out = map (format_thread qna_forum) stamp_threads\<rparr>"
    using list_threads_run_active [OF stamps_client_run, of 4]
    by (simp add: stamp_examples names lens)
  have ev2: "fst (list_threads shuffled_client None ''qna'' 3 False []) =
     Inr \<lparr>list_forumChannel = ''qna'', list_server = ''Alpha'', list_totalThreads = 3,
          list_includeArchived = False,
          list_threads_out =
            map (format_thread qna_forum)
              [example_thread ''a'' ''A'' 5, example_thread ''c'' ''C'' 3,
               example_thread ''b'' ''B'' 3]\<rparr>"
    using list_threads_run_active [OF shuffled_client_run, of 3]
    by (simp add: stamp_examples names)
  have coll: "collect_threads shuffled_client qna_forum False [ChannelsFetch ''1'' ''qna''] =
      (Inr shuffled_threads, [ChannelsFetch ''1'' ''qna'', FetchActive (cid qna_forum)])"
    using shuffled_client_run(3)
    by (simp add: collect_threads_def and_then_def await_call_def stamp_examples)
  have ev3: "fst (search_threads shuffled_client None ''qna'' [] 3 False False []) =
     Inr \<lparr>search_forumChannel = ''qna'', search_server = ''Alpha'', search_query = [],
          search_exactMatch = False, totalFound = 3, totalSearched = 4,
          search_includeArchived = False,
          search_threads_out =
            map (format_thread qna_forum)
              [example_thread ''a'' ''A'' 5, example_thread ''c'' ''C'' 3,
               example_thread ''b'' ''B'' 3]\<rparr>"
    using search_threads_run [OF shuffled_client_run(1,2) coll, of "[]" 3 False]
    by (simp add: stamp_examples names lens)
  from listed_threads_newest_first_then_limit [OF stamps_client_run(1,2), of True "[]" 4 False]
  have "\<exists>r ordered.
          fst (list_threads stamps_client None ''qna'' 4 False []) = Inr r
        \<and> newest_first_stable (coll_concat [] stamp_threads) ordered
        \<and> list_threads_out r = map (format_thread qna_forum) (take 4 ordered)"
    using stamps_client_run(3) by blast
  then have "\<exists>ordered. newest_first_stable stamp_threads ordered
         \<and> map (format_thread qna_forum) stamp_threads
             = map (format_thread qna_forum) (take 4 ordered)"
    using ev1 by (auto simp: stamp_examples)
  with ev1 ev2 ev3 show ?thesis by blast
qed

end
